theory Spec2Isabelle
  imports Complex_Main "HOL-Library.Char_ord" "HOL-Library.List_Lexorder"
begin

section \<open>Exceptions and Python arithmetic\<close>

text \<open>
  The three tools of the repository (\<^verbatim>\<open>grayscale_tool.py\<close>, \<^verbatim>\<open>grayscale_adjust_tool.py\<close>,
  \<^verbatim>\<open>grayscale_adjust_preview_tool.py\<close>) are Python programs on top of the Pillow imaging
  library. Python floats are modelled as real numbers (exact arithmetic), Python strings as
  \<open>char list\<close>, and every exception the code can meet as a value of the type \<open>exn\<close>;
  a computation that may raise returns \<open>exn + 'a\<close>, with \<open>Inl\<close> for the exception.
\<close>

datatype exn = UnidentifiedImageError | ZeroDivisionError | OtherError string

definition bind_result :: "exn + 'a \<Rightarrow> ('a \<Rightarrow> exn + 'b) \<Rightarrow> exn + 'b" where
  "bind_result r f = (case r of Inl e \<Rightarrow> Inl e | Inr x \<Rightarrow> f x)"

text \<open>The list comprehension over a body that may raise: the first exception wins.\<close>

fun map_result :: "('a \<Rightarrow> exn + 'b) \<Rightarrow> 'a list \<Rightarrow> exn + 'b list" where
  "map_result f [] = Inr []"
| "map_result f (x # xs) =
     (case f x of
        Inl e \<Rightarrow> Inl e
      | Inr y \<Rightarrow> (case map_result f xs of Inl e \<Rightarrow> Inl e | Inr ys \<Rightarrow> Inr (y # ys)))"

text \<open>Python's \<^verbatim>\<open>a / b\<close> on floats raises \<^verbatim>\<open>ZeroDivisionError\<close> when \<open>b\<close> is zero.\<close>

definition py_truediv :: "real \<Rightarrow> real \<Rightarrow> exn + real" where
  "py_truediv a b = (if b = 0 then Inl ZeroDivisionError else Inr (a / b))"

text \<open>
  Python's \<^verbatim>\<open>x ** y\<close> on floats: anything to the power zero is one, zero to a negative
  power raises \<^verbatim>\<open>ZeroDivisionError\<close>, and a negative base with a fractional exponent leaves
  the floats (the result is complex, which \<^verbatim>\<open>round\<close> then rejects).
\<close>

definition py_pow :: "real \<Rightarrow> real \<Rightarrow> exn + real" where
  "py_pow x y =
     (if y = 0 then Inr 1
      else if x = 0 then (if y < 0 then Inl ZeroDivisionError else Inr 0)
      else if 0 < x then Inr (x powr y)
      else if of_int \<lfloor>y\<rfloor> = y then
        Inr (if 0 \<le> y then x ^ nat \<lfloor>y\<rfloor> else 1 / x ^ nat (- \<lfloor>y\<rfloor>))
      else Inl (OtherError ''TypeError''))"

text \<open>Python's \<^verbatim>\<open>round(x)\<close> with one argument rounds to the nearest integer, ties to even.\<close>

definition py_round :: "real \<Rightarrow> int" where
  "py_round x =
     (let f = \<lfloor>x\<rfloor>; d = x - of_int f
      in if d < 1 / 2 then f
         else if 1 / 2 < d then f + 1
         else if even f then f else f + 1)"

section \<open>The gamma lookup table\<close>

text \<open>
  Lines 102-103 of \<^verbatim>\<open>apply_adjustments\<close> (and 96-97 of \<^verbatim>\<open>apply_adjustments_L\<close>):
  \<^verbatim>\<open>
  inv = 1.0 / max(g, 1e-6)
  lut = [int(round((i / 255.0) ** inv * 255.0)) for i in range(256)]
  \<close>
\<close>

definition gamma_inv :: "real \<Rightarrow> exn + real" where
  "gamma_inv g = py_truediv 1 (max g (1 / 1000000))"

definition lut_entry :: "real \<Rightarrow> nat \<Rightarrow> exn + int" where
  "lut_entry inv_g i =
     bind_result (py_truediv (real i) 255) (\<lambda>x.
     bind_result (py_pow x inv_g) (\<lambda>p.
     Inr (py_round (p * 255))))"

definition gamma_lut :: "real \<Rightarrow> exn + int list" where
  "gamma_lut g = bind_result (gamma_inv g) (\<lambda>inv_g. map_result (lut_entry inv_g) [0..<256])"

text \<open>
  The definitions above compute in exact real arithmetic. The program computes in binary
  floating point: each of its three operations returns a double close to the exact result,
  and which double the power function returns depends on the platform's mathematical
  library. The same two source lines are therefore modelled a second time with the three
  operations as parameters; the exception tests are those of the language and do not
  change. \<^verbatim>\<open>round\<close> of a double is exact, as modelled by \<open>py_round\<close>.
\<close>

record fpu =
  fl_div :: "real \<Rightarrow> real \<Rightarrow> real"
  fl_pow :: "real \<Rightarrow> real \<Rightarrow> real"
  fl_mul :: "real \<Rightarrow> real \<Rightarrow> real"

definition fp_truediv :: "fpu \<Rightarrow> real \<Rightarrow> real \<Rightarrow> exn + real" where
  "fp_truediv fp a b = (if b = 0 then Inl ZeroDivisionError else Inr (fl_div fp a b))"

definition fp_pow :: "fpu \<Rightarrow> real \<Rightarrow> real \<Rightarrow> exn + real" where
  "fp_pow fp x y =
     (if y = 0 then Inr 1
      else if x = 0 then (if y < 0 then Inl ZeroDivisionError else Inr 0)
      else if 0 < x then Inr (fl_pow fp x y)
      else if of_int \<lfloor>y\<rfloor> = y then Inr (fl_pow fp x y)
      else Inl (OtherError ''TypeError''))"

definition fp_lut_entry :: "fpu \<Rightarrow> real \<Rightarrow> nat \<Rightarrow> exn + int" where
  "fp_lut_entry fp inv_g i =
     bind_result (fp_truediv fp (real i) 255) (\<lambda>x.
     bind_result (fp_pow fp x inv_g) (\<lambda>p.
     Inr (py_round (fl_mul fp p 255))))"

definition gamma_lut_fp :: "fpu \<Rightarrow> real \<Rightarrow> exn + int list" where
  "gamma_lut_fp fp g =
     bind_result (fp_truediv fp 1 (max g (1 / 1000000)))
       (\<lambda>inv_g. map_result (fp_lut_entry fp inv_g) [0..<256])"

text \<open>The unit that computes exactly; with it the second model is the first.\<close>

definition exact_fpu :: fpu where
  "exact_fpu = \<lparr>fl_div = (\<lambda>a b. a / b), fl_pow = (\<lambda>x y. x powr y), fl_mul = (\<lambda>a b. a * b)\<rparr>"

text \<open>
  What is asked of a floating-point unit: on the arguments that the table needs, each
  operation has a relative error of at most one part in a thousand million. Division and
  multiplication of IEEE doubles are correctly rounded, with a relative error of about one
  part in ten thousand million million on these ranges; a power function that is wrong by
  less than a few million units in the last place meets the bound as well.
\<close>

definition fpu_accurate :: "fpu \<Rightarrow> bool" where
  "fpu_accurate fp \<longleftrightarrow>
     (\<forall>a b. (a = 0 \<or> 1 \<le> a) \<and> a \<le> 255 \<and> 1 / 2 \<le> b \<and> b \<le> 255 \<longrightarrow>
        \<bar>fl_div fp a b - a / b\<bar> \<le> (a / b) / 1000000000) \<and>
     (\<forall>x y. 1 / 300 \<le> x \<and> x \<le> 2 \<and> 1 / 2 \<le> y \<and> y \<le> 2 \<longrightarrow>
        \<bar>fl_pow fp x y - x powr y\<bar> \<le> (x powr y) / 1000000000) \<and>
     (\<forall>p. (p = 0 \<or> 1 / 1000000 \<le> p) \<and> p \<le> 2 \<longrightarrow>
        \<bar>fl_mul fp p 255 - p * 255\<bar> \<le> (p * 255) / 1000000000)"

text \<open>
  The value whose rounding is entry \<open>i\<close>: in exact arithmetic, and as the unit computes it
  (the power of zero is zero without a call of the library).
\<close>

definition exact_entry :: "real \<Rightarrow> nat \<Rightarrow> real" where
  "exact_entry g i = (real i / 255) powr (1 / g) * 255"

definition fp_entry :: "fpu \<Rightarrow> real \<Rightarrow> nat \<Rightarrow> real" where
  "fp_entry fp g i =
     (if i = 0 then fl_mul fp 0 255
      else fl_mul fp (fl_pow fp (fl_div fp (real i) 255) (fl_div fp 1 g)) 255)"

section \<open>The adjustment pipeline\<close>

text \<open>
  The configuration is a dictionary read with \<^verbatim>\<open>cfg.get(key, default)\<close>: every key may be
  absent, and then the default is taken (\<open>get_default\<close>, which also models \<^verbatim>\<open>getattr\<close>
  with a default).
\<close>

record config =
  autocontrast :: "bool option"
  cutoff :: "int option"
  brightness :: "real option"
  contrast :: "real option"
  gamma :: "real option"

definition get_default :: "'a option \<Rightarrow> 'a \<Rightarrow> 'a" where
  "get_default v d = (case v of None \<Rightarrow> d | Some x \<Rightarrow> x)"

definition default_cfg :: config where
  "default_cfg = \<lparr> autocontrast = Some False, cutoff = Some 1, brightness = Some 1,
                   contrast = Some 1, gamma = Some 1 \<rparr>"

text \<open>
  The operations of the imaging library are not part of the repository. They are taken as
  parameters: a record of functions over an arbitrary image type, each of which may raise.
  The world the library reads from and writes to is the set of paths that exist.
\<close>

datatype save_outcome = Saved | SaveFailed exn bool

record 'img pil =
  img_open :: "string set \<Rightarrow> string \<Rightarrow> exn + 'img"
  is_animated :: "'img \<Rightarrow> bool option"
  mode :: "'img \<Rightarrow> string"
  convert_rgb :: "'img \<Rightarrow> exn + 'img"
  grayscale :: "'img \<Rightarrow> exn + 'img"
  op_autocontrast :: "'img \<Rightarrow> int \<Rightarrow> exn + 'img"
  enhance_brightness :: "'img \<Rightarrow> real \<Rightarrow> exn + 'img"
  enhance_contrast :: "'img \<Rightarrow> real \<Rightarrow> exn + 'img"
  point :: "'img \<Rightarrow> int list \<Rightarrow> exn + 'img"
  img_save :: "'img \<Rightarrow> string \<Rightarrow> bool \<Rightarrow> string set \<Rightarrow> save_outcome"

text \<open>\<^verbatim>\<open>apply_adjustments\<close> of \<^verbatim>\<open>grayscale_adjust_tool.py\<close>, statement by statement.\<close>

definition apply_adjustments :: "'img pil \<Rightarrow> 'img \<Rightarrow> config \<Rightarrow> exn + 'img" where
  "apply_adjustments lib gray cfg =
     bind_result
       (if get_default (autocontrast cfg) False
        then op_autocontrast lib gray (get_default (cutoff cfg) 1)
        else Inr gray) (\<lambda>im1.
     bind_result
       (let b = get_default (brightness cfg) 1
        in if 1 / 1000000 < \<bar>b - 1\<bar> then enhance_brightness lib im1 b else Inr im1) (\<lambda>im2.
     bind_result
       (let c = get_default (contrast cfg) 1
        in if 1 / 1000000 < \<bar>c - 1\<bar> then enhance_contrast lib im2 c else Inr im2) (\<lambda>im3.
     (let g = get_default (gamma cfg) 1
      in if 1 / 1000000 < \<bar>g - 1\<bar>
         then bind_result (gamma_lut g) (\<lambda>lut. point lib im3 lut)
         else Inr im3))))"

text \<open>\<^verbatim>\<open>apply_adjustments_L\<close> of \<^verbatim>\<open>grayscale_adjust_preview_tool.py\<close>.\<close>

definition apply_adjustments_L :: "'img pil \<Rightarrow> 'img \<Rightarrow> config \<Rightarrow> exn + 'img" where
  "apply_adjustments_L lib gray cfg =
     bind_result
       (if get_default (autocontrast cfg) False
        then op_autocontrast lib gray (get_default (cutoff cfg) 1)
        else Inr gray) (\<lambda>im1.
     bind_result
       (let b = get_default (brightness cfg) 1
        in if 1 / 1000000 < \<bar>b - 1\<bar> then enhance_brightness lib im1 b else Inr im1) (\<lambda>im2.
     bind_result
       (let c = get_default (contrast cfg) 1
        in if 1 / 1000000 < \<bar>c - 1\<bar> then enhance_contrast lib im2 c else Inr im2) (\<lambda>im3.
     (let g = get_default (gamma cfg) 1
      in if 1 / 1000000 < \<bar>g - 1\<bar>
         then bind_result (gamma_lut g) (\<lambda>lut. point lib im3 lut)
         else Inr im3))))"

text \<open>
  \<^verbatim>\<open>to_gray_L\<close> of the preview tool; \<^verbatim>\<open>convert_one\<close> and \<^verbatim>\<open>convert_to_gray\<close> have the same two
  statements inline.
\<close>

definition to_gray_L :: "'img pil \<Rightarrow> 'img \<Rightarrow> exn + 'img" where
  "to_gray_L lib im =
     bind_result (if mode lib im \<notin> {''L'', ''LA''} then convert_rgb lib im else Inr im)
       (\<lambda>im'. grayscale lib im')"

section \<open>Strings and paths\<close>

text \<open>
  Paths are strings of ASCII characters. \<^verbatim>\<open>str.lower\<close> maps the letters A to Z to a to z
  and leaves every other character alone.
\<close>

definition lower_char :: "char \<Rightarrow> char" where
  "lower_char c =
     (let n = (of_char c :: nat) in if 65 \<le> n \<and> n \<le> 90 then char_of (n + 32) else c)"

definition lower :: "string \<Rightarrow> string" where
  "lower s = map lower_char s"

text \<open>\<^verbatim>\<open>str.rfind\<close> for a single character: the last index where it occurs, or -1.\<close>

fun rfind :: "char \<Rightarrow> string \<Rightarrow> int" where
  "rfind c [] = - 1"
| "rfind c (x # xs) =
     (let r = rfind c xs in if 0 \<le> r then r + 1 else if x = c then 0 else - 1)"

text \<open>
  The functions of \<^verbatim>\<open>os.path\<close>, as \<^verbatim>\<open>posixpath\<close> defines them. \<^verbatim>\<open>splitext\<close> splits at the
  last dot of the last path component, unless that component has only dots before it.
\<close>

definition splitext :: "string \<Rightarrow> string \<times> string" where
  "splitext p =
     (let sepIndex = rfind (CHR ''/'') p; dotIndex = rfind (CHR ''.'') p
      in if sepIndex < dotIndex \<and>
            list_ex (\<lambda>c. c \<noteq> CHR ''.'')
              (take (nat (dotIndex - (sepIndex + 1))) (drop (nat (sepIndex + 1)) p))
         then (take (nat dotIndex) p, drop (nat dotIndex) p)
         else (p, []))"

definition basename :: "string \<Rightarrow> string" where
  "basename p = drop (nat (rfind (CHR ''/'') p + 1)) p"

definition os_path_join :: "string \<Rightarrow> string \<Rightarrow> string" where
  "os_path_join a b =
     (if b \<noteq> [] \<and> hd b = CHR ''/'' then b
      else if a = [] \<or> last a = CHR ''/'' then a @ b
      else a @ ''/'' @ b)"

text \<open>\<^verbatim>\<open>str(n)\<close> for a non-negative integer: its decimal digits.\<close>

definition digit_char :: "nat \<Rightarrow> char" where
  "digit_char d = ''0123456789'' ! d"

fun str_nat :: "nat \<Rightarrow> string" where
  "str_nat n = (if n < 10 then [digit_char n] else str_nat (n div 10) @ [digit_char (n mod 10)])"

declare str_nat.simps [simp del]

section \<open>Recognised extensions\<close>

definition IMAGE_EXTS :: "string set" where
  "IMAGE_EXTS = {''.jpg'', ''.jpeg'', ''.png'', ''.tif'', ''.tiff'', ''.bmp'', ''.gif''}"

definition is_image_file :: "string \<Rightarrow> bool" where
  "is_image_file path \<longleftrightarrow> lower (snd (splitext path)) \<in> IMAGE_EXTS"

section \<open>The output-path allocator\<close>

text \<open>
  \<^verbatim>\<open>safe_out_path\<close> of the preview tool takes the suffix as an argument; the other two tools
  fix it (\<^verbatim>\<open>_adj\<close>, \<^verbatim>\<open>_gray\<close>). \<^verbatim>\<open>OUTPUT_DIR\<close> is computed at start-up from the user's home
  directory and is a parameter here. The set \<open>fs\<close> holds the paths that exist. The
  \<^verbatim>\<open>while\<close> loop need not end, so it is a partial function: \<open>None\<close> is a loop that runs
  forever.
\<close>

definition candidate :: "string \<Rightarrow> string \<Rightarrow> string \<Rightarrow> string \<Rightarrow> nat \<Rightarrow> string" where
  "candidate out_dir name suffix ext n =
     os_path_join out_dir (name @ suffix @ ''-'' @ str_nat n @ ext)"

partial_function (option) safe_out_loop ::
  "string set \<Rightarrow> string \<Rightarrow> string \<Rightarrow> string \<Rightarrow> string \<Rightarrow> nat \<Rightarrow> string \<Rightarrow> string option"
where
  "safe_out_loop fs out_dir name suffix ext n dst =
     (if dst \<in> fs
      then safe_out_loop fs out_dir name suffix ext (n + 1) (candidate out_dir name suffix ext n)
      else Some dst)"

declare safe_out_loop.simps [code]

definition safe_out_path :: "string set \<Rightarrow> string \<Rightarrow> string \<Rightarrow> string \<Rightarrow> string option" where
  "safe_out_path fs out_dir filename suffix =
     (let (name, ext) = splitext filename;
          dst = os_path_join out_dir (name @ suffix @ ext)
      in safe_out_loop fs out_dir name suffix ext 2 dst)"

section \<open>Converting one file\<close>

text \<open>
  The converters return a pair \<^verbatim>\<open>(True, destination)\<close> or \<^verbatim>\<open>(False, reason)\<close>; here
  \<open>Inr destination\<close> and \<open>Inl reason\<close>. The three reasons are the three messages of the
  source: the skip of an animated image, the message of the \<^verbatim>\<open>UnidentifiedImageError\<close> handler,
  and the message of the \<^verbatim>\<open>Exception\<close> handler, which quotes the exception. A converter also
  returns the set of existing paths after it has run.
\<close>

datatype reason = AnimatedSkip | BadImage | Failed exn

definition handle_exn :: "exn \<Rightarrow> reason" where
  "handle_exn e = (case e of UnidentifiedImageError \<Rightarrow> BadImage | _ \<Rightarrow> Failed e)"

text \<open>
  The last four statements of each converter: choose the encoder parameters from the
  extension of the destination and save. A failed save may or may not leave a file behind;
  the library says which.
\<close>

definition save_to :: "'img pil \<Rightarrow> 'img \<Rightarrow> string \<Rightarrow> string set \<Rightarrow> (reason + string) \<times> string set" where
  "save_to lib out_img dst fs =
     (let ext = lower (snd (splitext dst));
          jpeg_kw = (ext \<in> {''.jpg'', ''.jpeg''})
      in case img_save lib out_img dst jpeg_kw fs of
           Saved \<Rightarrow> (Inr dst, insert dst fs)
         | SaveFailed e left \<Rightarrow> (Inl (handle_exn e), if left then insert dst fs else fs))"

text \<open>\<^verbatim>\<open>convert_one\<close> of \<^verbatim>\<open>grayscale_adjust_tool.py\<close>.\<close>

definition convert_one ::
  "'img pil \<Rightarrow> string \<Rightarrow> string set \<Rightarrow> string \<Rightarrow> config \<Rightarrow> ((reason + string) \<times> string set) option"
where
  "convert_one lib out_dir fs src cfg =
     (case img_open lib fs src of
        Inl e \<Rightarrow> Some (Inl (handle_exn e), fs)
      | Inr im \<Rightarrow>
          if get_default (is_animated lib im) False then Some (Inl AnimatedSkip, fs)
          else
            (case bind_result
                    (if mode lib im \<notin> {''L'', ''LA''} then convert_rgb lib im else Inr im)
                    (\<lambda>im'. bind_result (grayscale lib im')
                    (\<lambda>gray. apply_adjustments lib gray cfg)) of
               Inl e \<Rightarrow> Some (Inl (handle_exn e), fs)
             | Inr out_img \<Rightarrow>
                 (case safe_out_path fs out_dir (basename src) ''_adj'' of
                    None \<Rightarrow> None
                  | Some dst \<Rightarrow> Some (save_to lib out_img dst fs))))"

text \<open>\<^verbatim>\<open>convert_to_gray\<close> of \<^verbatim>\<open>grayscale_tool.py\<close>.\<close>

definition convert_to_gray ::
  "'img pil \<Rightarrow> string \<Rightarrow> string set \<Rightarrow> string \<Rightarrow> ((reason + string) \<times> string set) option"
where
  "convert_to_gray lib out_dir fs src =
     (case img_open lib fs src of
        Inl e \<Rightarrow> Some (Inl (handle_exn e), fs)
      | Inr im \<Rightarrow>
          if get_default (is_animated lib im) False then Some (Inl AnimatedSkip, fs)
          else
            (case bind_result
                    (if mode lib im \<notin> {''L'', ''LA''} then convert_rgb lib im else Inr im)
                    (\<lambda>im'. grayscale lib im') of
               Inl e \<Rightarrow> Some (Inl (handle_exn e), fs)
             | Inr gray \<Rightarrow>
                 (case safe_out_path fs out_dir (basename src) ''_gray'' of
                    None \<Rightarrow> None
                  | Some dst \<Rightarrow> Some (save_to lib gray dst fs))))"

text \<open>\<^verbatim>\<open>convert_fullres\<close> of \<^verbatim>\<open>grayscale_adjust_preview_tool.py\<close>.\<close>

definition convert_fullres ::
  "'img pil \<Rightarrow> string \<Rightarrow> string set \<Rightarrow> string \<Rightarrow> config \<Rightarrow> ((reason + string) \<times> string set) option"
where
  "convert_fullres lib out_dir fs src cfg =
     (case img_open lib fs src of
        Inl e \<Rightarrow> Some (Inl (handle_exn e), fs)
      | Inr im \<Rightarrow>
          if get_default (is_animated lib im) False then Some (Inl AnimatedSkip, fs)
          else
            (case bind_result (to_gray_L lib im) (\<lambda>gray. apply_adjustments_L lib gray cfg) of
               Inl e \<Rightarrow> Some (Inl (handle_exn e), fs)
             | Inr out \<Rightarrow>
                 (case safe_out_path fs out_dir (basename src) ''_adj'' of
                    None \<Rightarrow> None
                  | Some dst \<Rightarrow> Some (save_to lib out dst fs))))"

section \<open>The batch driver\<close>

text \<open>
  What \<^verbatim>\<open>process_targets\<close> prints: one line per target with its index, the total and the
  base name, then a rule, the output directory and the counts. The elapsed time of the last
  line is left out.
\<close>

datatype log_line =
    LogOk nat nat string string
  | LogSkip nat nat string reason
  | LogRule
  | LogOutDir string
  | LogDone nat nat nat

text \<open>
  \<^verbatim>\<open>print\<close> encodes the line for standard output and raises \<^verbatim>\<open>UnicodeEncodeError\<close> when the
  encoding of the stream cannot take a character of it: the skip reasons and the labels of
  the last two lines are Japanese text, and a file name may hold any character. What the
  stream does with a line is a parameter: \<open>None\<close> when the line is written, the exception
  otherwise.
\<close>

type_synonym printer = "log_line \<Rightarrow> exn option"

record batch_state =
  ok_count :: nat
  skip_count :: nat
  printed :: "log_line list"
  files :: "string set"

definition print_line :: "printer \<Rightarrow> log_line \<Rightarrow> batch_state \<Rightarrow> exn + batch_state" where
  "print_line pr l st =
     (case pr l of Some e \<Rightarrow> Inl e | None \<Rightarrow> Inr (st\<lparr>printed := printed st @ [l]\<rparr>))"

text \<open>
  The \<^verbatim>\<open>for i, p in enumerate(targets, 1)\<close> loop, which the two command-line tools share word
  for word apart from the converter they call. The converter has its own handlers and
  returns; the counter is incremented and then the line is printed, outside every
  \<^verbatim>\<open>try\<close>, so that an exception of \<^verbatim>\<open>print\<close> ends the loop and leaves the function. The
  loop returns the exception, if any, and the state reached.
\<close>

fun batch_loop ::
  "printer \<Rightarrow> (string set \<Rightarrow> string \<Rightarrow> ((reason + string) \<times> string set) option) \<Rightarrow> nat \<Rightarrow> nat \<Rightarrow>
   string list \<Rightarrow> batch_state \<Rightarrow> (exn option \<times> batch_state) option"
where
  "batch_loop pr conv n_total i [] st = Some (None, st)"
| "batch_loop pr conv n_total i (p # ps) st =
     (case conv (files st) p of
        None \<Rightarrow> None
      | Some (Inr info, fs') \<Rightarrow>
          (let st1 = st\<lparr>ok_count := ok_count st + 1, files := fs'\<rparr>
           in case print_line pr (LogOk i n_total (basename p) (basename info)) st1 of
                Inl e \<Rightarrow> Some (Some e, st1)
              | Inr st2 \<Rightarrow> batch_loop pr conv n_total (i + 1) ps st2)
      | Some (Inl info, fs') \<Rightarrow>
          (let st1 = st\<lparr>skip_count := skip_count st + 1, files := fs'\<rparr>
           in case print_line pr (LogSkip i n_total (basename p) info) st1 of
                Inl e \<Rightarrow> Some (Some e, st1)
              | Inr st2 \<Rightarrow> batch_loop pr conv n_total (i + 1) ps st2))"

text \<open>
  How a call of \<^verbatim>\<open>process_targets\<close> ends: it returns its integer or an exception leaves it.
\<close>

datatype outcome = Returned int | Raised exn

text \<open>
  The statements after the loop: three more prints, then the file browser is started inside
  a \<^verbatim>\<open>try\<close> that swallows every exception, and 0 is returned.
\<close>

definition batch_finish :: "printer \<Rightarrow> string \<Rightarrow> nat \<Rightarrow> batch_state \<Rightarrow> outcome \<times> batch_state" where
  "batch_finish pr out_dir n_total st =
     (case print_line pr LogRule st of
        Inl e \<Rightarrow> (Raised e, st)
      | Inr st1 \<Rightarrow>
          (case print_line pr (LogOutDir out_dir) st1 of
             Inl e \<Rightarrow> (Raised e, st1)
           | Inr st2 \<Rightarrow>
               (case print_line pr (LogDone (ok_count st2) (skip_count st2) n_total) st2 of
                  Inl e \<Rightarrow> (Raised e, st2)
                | Inr st3 \<Rightarrow> (Returned 0, st3))))"

definition batch_start :: "string set \<Rightarrow> batch_state" where
  "batch_start fs = \<lparr>ok_count = 0, skip_count = 0, printed = [], files = fs\<rparr>"

definition batch_end ::
  "printer \<Rightarrow> string \<Rightarrow> nat \<Rightarrow> (exn option \<times> batch_state) option \<Rightarrow> (outcome \<times> batch_state) option"
where
  "batch_end pr out_dir n_total r =
     (case r of
        None \<Rightarrow> None
      | Some (Some e, st) \<Rightarrow> Some (Raised e, st)
      | Some (None, st) \<Rightarrow> Some (batch_finish pr out_dir n_total st))"

text \<open>\<^verbatim>\<open>process_targets\<close> of \<^verbatim>\<open>grayscale_adjust_tool.py\<close>.\<close>

definition process_targets ::
  "'img pil \<Rightarrow> printer \<Rightarrow> string \<Rightarrow> string set \<Rightarrow> string list \<Rightarrow> config \<Rightarrow>
   (outcome \<times> batch_state) option"
where
  "process_targets lib pr out_dir fs targets cfg =
     batch_end pr out_dir (length targets)
       (batch_loop pr (\<lambda>fs' p. convert_one lib out_dir fs' p cfg) (length targets) 1 targets
          (batch_start fs))"

text \<open>\<^verbatim>\<open>process_targets\<close> of \<^verbatim>\<open>grayscale_tool.py\<close>.\<close>

definition process_targets_gray ::
  "'img pil \<Rightarrow> printer \<Rightarrow> string \<Rightarrow> string set \<Rightarrow> string list \<Rightarrow> (outcome \<times> batch_state) option"
where
  "process_targets_gray lib pr out_dir fs targets =
     batch_end pr out_dir (length targets)
       (batch_loop pr (\<lambda>fs' p. convert_to_gray lib out_dir fs' p) (length targets) 1 targets
          (batch_start fs))"

text \<open>
  The loop of the window of the same two tools (\<^verbatim>\<open>start_proc\<close>) calls the same converter
  per target and writes its lines into a text widget, which takes every character.
\<close>

section \<open>The target collector\<close>

text \<open>
  The functions of \<^verbatim>\<open>os\<close> that look at the file system are parameters: \<^verbatim>\<open>norm\<close> (which is
  \<^verbatim>\<open>normpath\<close> of \<^verbatim>\<open>abspath\<close> and depends on the working directory), \<^verbatim>\<open>isdir\<close>,
  \<^verbatim>\<open>isfile\<close>, and \<^verbatim>\<open>os.walk\<close>, which lists a directory tree as triples of a directory, its
  subdirectories and its files.
\<close>

record os_env =
  norm_path :: "string \<Rightarrow> string"
  isdir :: "string \<Rightarrow> bool"
  isfile :: "string \<Rightarrow> bool"
  walk :: "string \<Rightarrow> (string \<times> string list \<times> string list) list"

text \<open>The state of the loops is the list \<^verbatim>\<open>paths\<close> and the set \<^verbatim>\<open>seen\<close>.\<close>

definition add_walked :: "os_env \<Rightarrow> string \<Rightarrow> string \<Rightarrow> string list \<times> string set \<Rightarrow> string list \<times> string set" where
  "add_walked env dir fn st =
     (let fp = norm_path env (os_path_join dir fn)
      in if is_image_file fp \<and> fp \<notin> snd st then (fst st @ [fp], insert fp (snd st)) else st)"

definition add_input :: "os_env \<Rightarrow> string \<Rightarrow> string list \<times> string set \<Rightarrow> string list \<times> string set" where
  "add_input env p0 st =
     (if p0 = [] then st
      else
        let p = norm_path env p0
        in if isdir env p
           then fold (\<lambda>(dir, subdirs, fns) st'. fold (add_walked env dir) fns st') (walk env p) st
           else if isfile env p \<and> is_image_file p
           then (if p \<notin> snd st then (fst st @ [p], insert p (snd st)) else st)
           else st)"

definition collect_targets :: "os_env \<Rightarrow> string list \<Rightarrow> string list" where
  "collect_targets env inputs = sort (fst (fold (add_input env) inputs ([], {})))"

text \<open>
  What the specification says one input contributes: for a directory the files of its tree,
  normalised, that have a recognised extension; for a file that exists, the file itself if
  its extension is recognised; nothing for the empty string or anything else.
\<close>

definition gathered :: "os_env \<Rightarrow> string \<Rightarrow> string set" where
  "gathered env p0 =
     (if p0 = [] then {}
      else
        let p = norm_path env p0
        in if isdir env p
           then {fp \<in> (\<Union>(dir, subdirs, fns) \<in> set (walk env p).
                         (\<lambda>fn. norm_path env (os_path_join dir fn)) ` set fns). is_image_file fp}
           else if isfile env p \<and> is_image_file p then {p} else {})"

text \<open>
  The invariant of the loops of \<^verbatim>\<open>collect_targets\<close>: the set holds exactly the paths of the
  list, the list has no duplicates, and every path in it is normalised and has a recognised
  extension.
\<close>

definition coll_inv :: "os_env \<Rightarrow> string list \<times> string set \<Rightarrow> bool" where
  "coll_inv env st \<longleftrightarrow> snd st = set (fst st) \<and> distinct (fst st) \<and>
     (\<forall>p \<in> set (fst st). is_image_file p \<and> p \<in> range (norm_path env))"

section \<open>Entry points\<close>

text \<open>
  What a program run does: it either opens the window or runs the batch. \<^verbatim>\<open>run_cli\<close> is the
  entry point of \<^verbatim>\<open>grayscale_adjust_tool.py\<close> and of \<^verbatim>\<open>grayscale_tool.py\<close>, \<^verbatim>\<open>main\<close> that of
  \<^verbatim>\<open>grayscale_adjust_preview_tool.py\<close>.
\<close>

datatype run = GuiLaunched | BatchRan "(outcome \<times> batch_state) option"

definition run_cli ::
  "'img pil \<Rightarrow> os_env \<Rightarrow> printer \<Rightarrow> string \<Rightarrow> string set \<Rightarrow> string list \<Rightarrow> run"
where
  "run_cli lib env pr out_dir fs argv =
     (let targets = collect_targets env argv
      in if targets = [] then GuiLaunched
         else BatchRan (process_targets lib pr out_dir fs targets default_cfg))"

definition run_cli_gray ::
  "'img pil \<Rightarrow> os_env \<Rightarrow> printer \<Rightarrow> string \<Rightarrow> string set \<Rightarrow> string list \<Rightarrow> run"
where
  "run_cli_gray lib env pr out_dir fs argv =
     (let targets = collect_targets env argv
      in if targets = [] then GuiLaunched
         else BatchRan (process_targets_gray lib pr out_dir fs targets))"

definition main_preview :: "'img pil \<Rightarrow> os_env \<Rightarrow> string \<Rightarrow> string set \<Rightarrow> string list \<Rightarrow> run" where
  "main_preview lib env out_dir fs argv = GuiLaunched"

section \<open>The pipeline as the specification words it\<close>

text \<open>
  The specification describes the pipeline as four steps in a fixed order, each of which
  leaves the image alone at its identity value and otherwise calls the library on the
  output of the step before. The four steps, and their composition in that order:
\<close>

definition step_autocontrast :: "'img pil \<Rightarrow> config \<Rightarrow> 'img \<Rightarrow> exn + 'img" where
  "step_autocontrast lib cfg im =
     (if get_default (autocontrast cfg) False
      then op_autocontrast lib im (get_default (cutoff cfg) 1) else Inr im)"

definition step_brightness :: "'img pil \<Rightarrow> config \<Rightarrow> 'img \<Rightarrow> exn + 'img" where
  "step_brightness lib cfg im =
     (if \<bar>get_default (brightness cfg) 1 - 1\<bar> \<le> 1 / 1000000 then Inr im
      else enhance_brightness lib im (get_default (brightness cfg) 1))"

definition step_contrast :: "'img pil \<Rightarrow> config \<Rightarrow> 'img \<Rightarrow> exn + 'img" where
  "step_contrast lib cfg im =
     (if \<bar>get_default (contrast cfg) 1 - 1\<bar> \<le> 1 / 1000000 then Inr im
      else enhance_contrast lib im (get_default (contrast cfg) 1))"

definition step_gamma :: "'img pil \<Rightarrow> config \<Rightarrow> 'img \<Rightarrow> exn + 'img" where
  "step_gamma lib cfg im =
     (if \<bar>get_default (gamma cfg) 1 - 1\<bar> \<le> 1 / 1000000 then Inr im
      else bind_result (gamma_lut (get_default (gamma cfg) 1)) (point lib im))"

definition pipeline_spec :: "'img pil \<Rightarrow> config \<Rightarrow> 'img \<Rightarrow> exn + 'img" where
  "pipeline_spec lib cfg gray =
     bind_result (bind_result (bind_result (step_autocontrast lib cfg gray)
       (step_brightness lib cfg)) (step_contrast lib cfg)) (step_gamma lib cfg)"

text \<open>A library none of whose image operations raises.\<close>

definition ops_succeed :: "'img pil \<Rightarrow> bool" where
  "ops_succeed lib \<longleftrightarrow>
     (\<forall>im c. \<exists>r. op_autocontrast lib im c = Inr r) \<and>
     (\<forall>im b. \<exists>r. enhance_brightness lib im b = Inr r) \<and>
     (\<forall>im c. \<exists>r. enhance_contrast lib im c = Inr r) \<and>
     (\<forall>im lut. \<exists>r. point lib im lut = Inr r)"

text \<open>
  What the specification asks of a batch: every target is converted once, in the order of
  the list, each on the files its predecessors have left; the result of each target is
  printed as an OK line with the destination when the conversion succeeded and as a SKIP
  line with the reason when it failed.
\<close>

fun run_results ::
  "(string set \<Rightarrow> string \<Rightarrow> ((reason + string) \<times> string set) option) \<Rightarrow> string set \<Rightarrow>
   string list \<Rightarrow> ((reason + string) list \<times> string set) option"
where
  "run_results conv fs [] = Some ([], fs)"
| "run_results conv fs (p # ps) =
     (case conv fs p of
        None \<Rightarrow> None
      | Some (r, fs') \<Rightarrow>
          (case run_results conv fs' ps of
             None \<Rightarrow> None
           | Some (rs, fs'') \<Rightarrow> Some (r # rs, fs'')))"

definition result_line :: "nat \<Rightarrow> nat \<times> string \<times> (reason + string) \<Rightarrow> log_line" where
  "result_line n_total t =
     (case t of
        (i, p, Inr dst) \<Rightarrow> LogOk i n_total (basename p) (basename dst)
      | (i, p, Inl why) \<Rightarrow> LogSkip i n_total (basename p) why)"

definition report ::
  "string \<Rightarrow> string list \<Rightarrow> (reason + string) list \<Rightarrow> string set \<Rightarrow> batch_state"
where
  "report out_dir targets rs fs =
     (let n = length targets; ok = length (filter (\<lambda>r. \<not> isl r) rs); skip = length (filter isl rs)
      in \<lparr>ok_count = ok, skip_count = skip,
          printed = map (result_line n) (zip [1..<Suc n] (zip targets rs)) @
                    [LogRule, LogOutDir out_dir, LogDone ok skip n],
          files = fs\<rparr>)"

section \<open>A stand-in library for running the definitions\<close>

text \<open>
  To run the definitions on concrete inputs the library parameters need values. The
  stand-in below keeps, for an image, its mode, its animation flag and the list of
  operations applied to it so far; every operation appends its own name. A file opens as an
  animated palette image when its extension is \<^verbatim>\<open>.gif\<close>, as an RGB image when its
  extension is another recognised one, and is not an image otherwise.
\<close>

record test_image =
  t_mode :: string
  t_animated :: "bool option"
  t_ops :: "string list"

definition test_open :: "string set \<Rightarrow> string \<Rightarrow> exn + test_image" where
  "test_open fs p =
     (if p \<notin> fs then Inl (OtherError ''FileNotFoundError'')
      else if lower (snd (splitext p)) = ''.gif''
      then Inr \<lparr>t_mode = ''P'', t_animated = Some True, t_ops = []\<rparr>
      else if is_image_file p
      then Inr \<lparr>t_mode = ''RGB'', t_animated = None, t_ops = []\<rparr>
      else Inl UnidentifiedImageError)"

definition test_op :: "string \<Rightarrow> test_image \<Rightarrow> exn + test_image" where
  "test_op name im = Inr (im\<lparr>t_ops := t_ops im @ [name]\<rparr>)"

definition test_pil :: "test_image pil" where
  "test_pil =
     \<lparr> img_open = test_open,
       is_animated = t_animated,
       mode = t_mode,
       convert_rgb = (\<lambda>im. test_op ''convert'' (im\<lparr>t_mode := ''RGB''\<rparr>)),
       grayscale = (\<lambda>im. test_op ''grayscale'' (im\<lparr>t_mode := ''L''\<rparr>)),
       op_autocontrast = (\<lambda>im c. test_op ''autocontrast'' im),
       enhance_brightness = (\<lambda>im b. test_op ''brightness'' im),
       enhance_contrast = (\<lambda>im c. test_op ''contrast'' im),
       point = (\<lambda>im lut. test_op ''point'' im),
       img_save = (\<lambda>im dst kw fs. Saved) \<rparr>"

definition test_gray :: test_image where
  "test_gray = \<lparr>t_mode = ''L'', t_animated = None, t_ops = []\<rparr>"

definition all_on_cfg :: config where
  "all_on_cfg = \<lparr> autocontrast = Some True, cutoff = Some 2, brightness = Some (6 / 5),
                  contrast = Some (4 / 5), gamma = Some (7 / 10) \<rparr>"

text \<open>
  A stand-in file system: one directory \<^verbatim>\<open>/pics\<close> with a subdirectory, four files in all,
  and paths that are already normalised.
\<close>

definition test_os :: os_env where
  "test_os =
     \<lparr> norm_path = (\<lambda>p. p),
       isdir = (\<lambda>p. p \<in> {''/pics'', ''/pics/old''}),
       isfile = (\<lambda>p. p \<in> {''/pics/b.PNG'', ''/pics/notes.txt'', ''/pics/old/a.jpg'',
                           ''/pics/old/anim.gif''}),
       walk = (\<lambda>p. if p = ''/pics''
                    then [(''/pics'', [''old''], [''b.PNG'', ''notes.txt'']),
                          (''/pics/old'', [], [''a.jpg'', ''anim.gif''])]
                    else if p = ''/pics/old''
                    then [(''/pics/old'', [], [''a.jpg'', ''anim.gif''])]
                    else []) \<rparr>"

definition test_fs :: "string set" where
  "test_fs = {''/pics/b.PNG'', ''/pics/notes.txt'', ''/pics/old/a.jpg'', ''/pics/old/anim.gif''}"

text \<open>
  Two standard outputs: one that takes every line, and one whose encoding takes ASCII
  only. The file names of the stand-in are ASCII; the reason of a SKIP line and the labels
  of the last two lines are not.
\<close>

definition print_all :: printer where
  "print_all l = None"

definition print_ascii :: printer where
  "print_ascii l =
     (case l of
        LogOk i n name dst \<Rightarrow> None
      | LogRule \<Rightarrow> None
      | _ \<Rightarrow> Some (OtherError ''UnicodeEncodeError''))"

section \<open>Basic facts about results\<close>

lemma bind_result_Inr [simp]: "bind_result (Inr x) f = f x"
  by (simp add: bind_result_def)

lemma bind_result_Inl [simp]: "bind_result (Inl e) f = Inl e"
  by (simp add: bind_result_def)

lemma bind_result_return: "bind_result r Inr = r"
  by (cases r) simp_all

lemma map_result_all_ok:
  "(\<And>x. x \<in> set xs \<Longrightarrow> f x = Inr (h x)) \<Longrightarrow> map_result f xs = Inr (map h xs)"
  by (induction xs) auto

section \<open>The gamma table in exact arithmetic\<close>

lemma py_pow_nonneg: "0 \<le> x \<Longrightarrow> 0 < y \<Longrightarrow> py_pow x y = Inr (x powr y)"
  by (auto simp: py_pow_def)

lemma gamma_inv_ok: "gamma_inv g = Inr (1 / max g (1 / 1000000))"
proof -
  have "max g (1 / 1000000) \<noteq> 0" by (simp add: max_def)
  then show ?thesis unfolding gamma_inv_def py_truediv_def by simp
qed

lemma gamma_inv_pos: "0 < 1 / max g (1 / 1000000 :: real)"
  by (simp add: max_def)

lemma lut_entry_ok:
  "0 < e \<Longrightarrow> lut_entry e i = Inr (py_round ((real i / 255) powr e * 255))"
  by (simp add: lut_entry_def py_truediv_def py_pow_nonneg)

lemma gamma_lut_eq:
  "gamma_lut g =
     Inr (map (\<lambda>i. py_round ((real i / 255) powr (1 / max g (1 / 1000000)) * 255)) [0..<256])"
  unfolding gamma_lut_def gamma_inv_ok
  using gamma_inv_pos [of g] by (simp add: map_result_all_ok lut_entry_ok del: upt.simps)

lemma py_round_of_int: "py_round (of_int k) = k"
  by (simp add: py_round_def)

lemma py_round_lower: "\<lfloor>x\<rfloor> \<le> py_round x"
  by (simp add: py_round_def Let_def)

lemma py_round_upper: "py_round x \<le> \<lfloor>x\<rfloor> + 1"
  by (simp add: py_round_def Let_def)

text \<open>Rounding ties to even is still monotone.\<close>

lemma py_round_mono: "x \<le> y \<Longrightarrow> py_round x \<le> py_round y"
proof (cases "\<lfloor>x\<rfloor> < \<lfloor>y\<rfloor>")
  case True
  have "py_round x \<le> \<lfloor>x\<rfloor> + 1" by (rule py_round_upper)
  also have "\<dots> \<le> \<lfloor>y\<rfloor>" using True by simp
  also have "\<dots> \<le> py_round y" by (rule py_round_lower)
  finally show ?thesis .
next
  case False
  assume xy: "x \<le> y"
  then have "\<lfloor>x\<rfloor> \<le> \<lfloor>y\<rfloor>" by (rule floor_mono)
  with False have eq: "\<lfloor>x\<rfloor> = \<lfloor>y\<rfloor>" by simp
  with xy show ?thesis by (auto simp: py_round_def Let_def)
qed

section \<open>The pipeline and its specification\<close>

lemma apply_adjustments_L_eq: "apply_adjustments_L lib gray cfg = apply_adjustments lib gray cfg"
  by (simp add: apply_adjustments_L_def apply_adjustments_def)

lemma apply_adjustments_pipeline: "apply_adjustments lib gray cfg = pipeline_spec lib cfg gray"
  unfolding apply_adjustments_def pipeline_spec_def step_autocontrast_def
    step_brightness_def step_contrast_def step_gamma_def Let_def
  by (cases "op_autocontrast lib gray (get_default (cutoff cfg) 1)";
      cases "enhance_brightness lib gray (get_default (brightness cfg) 1)";
      cases "enhance_contrast lib gray (get_default (contrast cfg) 1)")
     (auto simp: bind_result_def split: sum.splits)

lemma pipeline_spec_total:
  assumes "ops_succeed lib"
  shows "\<exists>out. pipeline_spec lib cfg gray = Inr out"
proof -
  obtain im1 where 1: "step_autocontrast lib cfg gray = Inr im1"
    using assms unfolding ops_succeed_def step_autocontrast_def by metis
  obtain im2 where 2: "step_brightness lib cfg im1 = Inr im2"
    using assms unfolding ops_succeed_def step_brightness_def by metis
  obtain im3 where 3: "step_contrast lib cfg im2 = Inr im3"
    using assms unfolding ops_succeed_def step_contrast_def by metis
  obtain im4 where 4: "step_gamma lib cfg im3 = Inr im4"
    using assms unfolding ops_succeed_def step_gamma_def gamma_lut_eq bind_result_Inr by metis
  show ?thesis by (simp add: pipeline_spec_def 1 2 3 4)
qed

lemma ops_succeed_test_pil: "ops_succeed test_pil"
  by (simp add: ops_succeed_def test_pil_def test_op_def)

lemma traced_order:
  "apply_adjustments test_pil test_gray all_on_cfg =
     Inr (test_gray\<lparr>t_ops := [''autocontrast'', ''brightness'', ''contrast'', ''point'']\<rparr>)"
  by (simp add: apply_adjustments_def all_on_cfg_def get_default_def test_pil_def test_op_def
      test_gray_def gamma_lut_eq)

section \<open>Claims about the adjustment pipeline\<close>

text \<open>
  Claim C1. With an identity configuration (autocontrast off or absent, brightness,
  contrast and gamma each within 1e-6 of 1.0 or absent) \<^verbatim>\<open>apply_adjustments\<close> and
  \<^verbatim>\<open>apply_adjustments_L\<close> return the grey image they were given, without calling the
  library, so that grey conversion followed by the pipeline is grey conversion alone.
\<close>

theorem identity_config_is_noop:
  assumes "\<not> get_default (autocontrast cfg) False"
    and "\<bar>get_default (brightness cfg) 1 - 1\<bar> \<le> 1 / 1000000"
    and "\<bar>get_default (contrast cfg) 1 - 1\<bar> \<le> 1 / 1000000"
    and "\<bar>get_default (gamma cfg) 1 - 1\<bar> \<le> 1 / 1000000"
  shows "apply_adjustments lib gray cfg = Inr gray \<and>
         apply_adjustments_L lib gray cfg = Inr gray \<and>
         bind_result (to_gray_L lib im) (\<lambda>g. apply_adjustments lib g cfg) = to_gray_L lib im \<and>
         bind_result (to_gray_L lib im) (\<lambda>g. apply_adjustments_L lib g cfg) = to_gray_L lib im"
proof -
  have a: "apply_adjustments lib x cfg = Inr x" for x
    using assms by (simp add: apply_adjustments_def Let_def)
  have b: "apply_adjustments_L lib x cfg = Inr x" for x
    using assms by (simp add: apply_adjustments_L_def Let_def)
  show ?thesis by (simp add: a b bind_result_return)
qed

text \<open>The default configuration of the tools is an identity configuration.\<close>

theorem identity_config_is_noop_witness:
  "apply_adjustments test_pil test_gray default_cfg = Inr test_gray \<and>
   apply_adjustments_L test_pil test_gray default_cfg = Inr test_gray \<and>
   bind_result (to_gray_L test_pil test_gray) (\<lambda>g. apply_adjustments test_pil g default_cfg)
     = to_gray_L test_pil test_gray \<and>
   bind_result (to_gray_L test_pil test_gray) (\<lambda>g. apply_adjustments_L test_pil g default_cfg)
     = to_gray_L test_pil test_gray"
  using identity_config_is_noop [of default_cfg test_pil test_gray test_gray]
  by (simp add: default_cfg_def get_default_def)

text \<open>
  Claim C5. Both pipeline functions are the composition of the four steps in the order
  autocontrast, brightness, contrast, gamma, each step working on the output of the one
  before and an exception of a step ending the pipeline; each step returns its input at its
  identity value. On the stand-in library, which records the operations applied to an image,
  a configuration with all four steps active yields exactly that order.
\<close>

theorem pipeline_fixed_order:
  "apply_adjustments lib gray cfg = pipeline_spec lib cfg gray \<and>
   apply_adjustments_L lib gray cfg = pipeline_spec lib cfg gray \<and>
   (\<not> get_default (autocontrast cfg) False \<longrightarrow> step_autocontrast lib cfg im = Inr im) \<and>
   (\<bar>get_default (brightness cfg) 1 - 1\<bar> \<le> 1 / 1000000 \<longrightarrow> step_brightness lib cfg im = Inr im) \<and>
   (\<bar>get_default (contrast cfg) 1 - 1\<bar> \<le> 1 / 1000000 \<longrightarrow> step_contrast lib cfg im = Inr im) \<and>
   (\<bar>get_default (gamma cfg) 1 - 1\<bar> \<le> 1 / 1000000 \<longrightarrow> step_gamma lib cfg im = Inr im) \<and>
   apply_adjustments test_pil test_gray all_on_cfg =
     Inr (test_gray\<lparr>t_ops := [''autocontrast'', ''brightness'', ''contrast'', ''point'']\<rparr>) \<and>
   apply_adjustments_L test_pil test_gray all_on_cfg =
     Inr (test_gray\<lparr>t_ops := [''autocontrast'', ''brightness'', ''contrast'', ''point'']\<rparr>)"
  by (simp add: apply_adjustments_L_eq apply_adjustments_pipeline [symmetric] traced_order
      step_autocontrast_def step_brightness_def step_contrast_def step_gamma_def)

text \<open>At the default configuration all four steps are at their identity value.\<close>

theorem pipeline_fixed_order_witness:
  "apply_adjustments test_pil test_gray default_cfg = pipeline_spec test_pil default_cfg test_gray \<and>
   apply_adjustments_L test_pil test_gray default_cfg = pipeline_spec test_pil default_cfg test_gray \<and>
   \<not> get_default (autocontrast default_cfg) False \<and>
   step_autocontrast test_pil default_cfg test_gray = Inr test_gray \<and>
   \<bar>get_default (brightness default_cfg) 1 - 1\<bar> \<le> 1 / 1000000 \<and>
   step_brightness test_pil default_cfg test_gray = Inr test_gray \<and>
   \<bar>get_default (contrast default_cfg) 1 - 1\<bar> \<le> 1 / 1000000 \<and>
   step_contrast test_pil default_cfg test_gray = Inr test_gray \<and>
   \<bar>get_default (gamma default_cfg) 1 - 1\<bar> \<le> 1 / 1000000 \<and>
   step_gamma test_pil default_cfg test_gray = Inr test_gray"
  using pipeline_fixed_order [of test_pil test_gray default_cfg test_gray]
  by (simp add: default_cfg_def get_default_def)

text \<open>
  Claim C9. For every gamma, also zero or negative, the divisor \<open>max gamma 1e-6\<close> is at
  least 1e-6, the division yields the exponent without \<^verbatim>\<open>ZeroDivisionError\<close>, the table is
  built with its 256 entries, and with a library whose operations do not raise the pipeline
  returns an image whatever the gamma of the configuration.
\<close>

theorem gamma_division_safe:
  "1 / 1000000 \<le> max g (1 / 1000000) \<and>
   gamma_inv g = Inr (1 / max g (1 / 1000000)) \<and>
   (\<exists>lut. gamma_lut g = Inr lut \<and> length lut = 256) \<and>
   (ops_succeed lib \<longrightarrow>
      (\<exists>out. apply_adjustments lib gray (cfg\<lparr>gamma := Some g\<rparr>) = Inr out) \<and>
      (\<exists>out. apply_adjustments_L lib gray (cfg\<lparr>gamma := Some g\<rparr>) = Inr out))"
  using pipeline_spec_total [of lib "cfg\<lparr>gamma := Some g\<rparr>" gray]
  by (simp add: gamma_inv_ok gamma_lut_eq apply_adjustments_L_eq apply_adjustments_pipeline
      del: upt.simps)

text \<open>At gamma = 0 the exponent is one million and the pipeline returns an image.\<close>

theorem gamma_division_safe_witness:
  "gamma_inv 0 = Inr 1000000 \<and>
   (\<exists>lut. gamma_lut 0 = Inr lut \<and> length lut = 256) \<and>
   ops_succeed test_pil \<and>
   (\<exists>out. apply_adjustments test_pil test_gray (default_cfg\<lparr>gamma := Some 0\<rparr>) = Inr out) \<and>
   (\<exists>out. apply_adjustments_L test_pil test_gray (default_cfg\<lparr>gamma := Some 0\<rparr>) = Inr out)"
  using gamma_division_safe [of 0 test_pil test_gray default_cfg] ops_succeed_test_pil
  by simp

section \<open>The gamma table in floating point\<close>

subsection \<open>Two inequalities for real powers\<close>

lemma powr_tangent:
  fixes t e :: real
  assumes t: "0 < t" and e: "0 < e" "e \<le> 1"
  shows "t powr e \<le> 1 + e * (t - 1)"
proof -
  define u where "u = 1 + e * (t - 1)"
  have u_eq: "u = e * t + (1 - e)" by (simp add: u_def algebra_simps)
  have upos: "0 < u"
  proof (cases "e = 1")
    case True
    then show ?thesis using t by (simp add: u_eq)
  next
    case False
    with e have "0 < 1 - e" by simp
    moreover have "0 < e * t" using e t by simp
    ultimately show ?thesis unfolding u_eq by linarith
  qed
  have a: "ln (t / u) \<le> t / u - 1" using t upos by (intro ln_le_minus_one) simp
  have b: "ln (1 / u) \<le> 1 / u - 1" using upos by (intro ln_le_minus_one) simp
  have a': "e * ln (t / u) \<le> e * (t / u - 1)" using a e by (intro mult_left_mono) simp_all
  have b': "(1 - e) * ln (1 / u) \<le> (1 - e) * (1 / u - 1)"
    using b e by (intro mult_left_mono) simp_all
  have "e * (t / u - 1) + (1 - e) * (1 / u - 1) = (e * t + (1 - e)) / u - 1"
    using upos by (simp add: field_simps)
  also have "\<dots> = 0" using upos by (simp add: u_eq [symmetric])
  finally have z: "e * (t / u - 1) + (1 - e) * (1 / u - 1) = 0" .
  have l1: "ln (t / u) = ln t - ln u" using t upos by (simp add: ln_divide_pos)
  have l2: "ln (1 / u) = - ln u" using upos by (simp add: ln_divide_pos)
  have "e * ln t - ln u = e * ln (t / u) + (1 - e) * ln (1 / u)"
    unfolding l1 l2 by (simp add: algebra_simps)
  also have "\<dots> \<le> 0" using a' b' z by linarith
  finally have "e * ln t \<le> ln u" by simp
  then have "exp (e * ln t) \<le> exp (ln u)" by (simp only: exp_le_cancel_iff)
  also have "exp (ln u) = u" using upos by simp
  finally have "exp (e * ln t) \<le> u" .
  moreover have "t powr e = exp (e * ln t)" using t by (simp add: powr_def)
  ultimately show ?thesis by (simp add: u_def)
qed

lemma powr_gap_concave:
  fixes a b e :: real
  assumes "0 \<le> a" "a < b" "b \<le> 1" "0 < e" "e \<le> 1"
  shows "e * (b - a) \<le> b powr e - a powr e"
proof -
  have bpos: "0 < b" using assms by linarith
  have be: "b \<le> b powr e"
    using powr_mono' [of e 1 b] assms bpos by simp
  show ?thesis
  proof (cases "a = 0")
    case True
    have "e * b \<le> 1 * b" using assms bpos by (intro mult_right_mono) simp_all
    with be True show ?thesis by simp
  next
    case False
    with assms have apos: "0 < a" by simp
    define t where "t = a / b"
    have tpos: "0 < t" using apos bpos by (simp add: t_def)
    have t1: "t \<le> 1" using assms bpos by (simp add: t_def)
    have ab: "a = b * t" using bpos by (simp add: t_def)
    have "a powr e = b powr e * t powr e" unfolding ab by (simp add: powr_mult)
    also have "\<dots> \<le> b powr e * (1 + e * (t - 1))"
      using powr_tangent [OF tpos assms(4,5)] by (intro mult_left_mono) simp_all
    finally have "b powr e - a powr e \<ge> b powr e * (e * (1 - t))"
      by (simp add: algebra_simps)
    moreover have "b powr e * (e * (1 - t)) \<ge> b * (e * (1 - t))"
      using be t1 assms by (intro mult_right_mono) simp_all
    moreover have "b * (e * (1 - t)) = e * (b - a)" unfolding ab by (simp add: algebra_simps)
    ultimately show ?thesis by linarith
  qed
qed

lemma powr_superadditive:
  fixes a h e :: real
  assumes "0 \<le> a" "0 < h" "1 \<le> e"
  shows "a powr e + h powr e \<le> (a + h) powr e"
proof -
  define s where "s = a + h"
  have spos: "0 < s" using assms by (simp add: s_def)
  have sub: "t powr e \<le> t" if "0 \<le> t" "t \<le> 1" for t :: real
    using powr_mono' [of 1 e t] that assms by simp
  have a: "a = s * (a / s)" and h: "h = s * (h / s)" using spos by simp_all
  have "a powr e = (s * (a / s)) powr e"
    using a by (rule arg_cong [where f = "\<lambda>x. x powr e"])
  then have "a powr e = s powr e * (a / s) powr e" by (simp only: powr_mult)
  moreover have "(a / s) powr e \<le> a / s"
    using assms spos by (intro sub) (simp_all add: s_def)
  ultimately have 1: "a powr e \<le> s powr e * (a / s)"
    using mult_left_mono [of "(a / s) powr e" "a / s" "s powr e"] by simp
  have "h powr e = (s * (h / s)) powr e"
    using h by (rule arg_cong [where f = "\<lambda>x. x powr e"])
  then have "h powr e = s powr e * (h / s) powr e" by (simp only: powr_mult)
  moreover have "(h / s) powr e \<le> h / s"
    using assms spos by (intro sub) (simp_all add: s_def)
  ultimately have 2: "h powr e \<le> s powr e * (h / s)"
    using mult_left_mono [of "(h / s) powr e" "h / s" "s powr e"] by simp
  have "s powr e * (a / s) + s powr e * (h / s) = s powr e * ((a + h) / s)"
    by (simp add: algebra_simps add_divide_distrib)
  also have "\<dots> = s powr e" using spos by (simp add: s_def)
  finally show ?thesis using 1 2 unfolding s_def by linarith
qed

lemma ln_one_plus_abs:
  fixes d :: real
  assumes "\<bar>d\<bar> \<le> 1 / 2"
  shows "\<bar>ln (1 + d)\<bar> \<le> 2 * \<bar>d\<bar>"
proof (cases "0 \<le> d")
  case True
  then have "0 \<le> ln (1 + d)" by simp
  moreover have "ln (1 + d) \<le> d" using True by (rule ln_add_one_self_le_self)
  ultimately show ?thesis using True by simp
next
  case False
  then have neg: "d < 0" by simp
  have pos: "0 < 1 + d" "1 / 2 \<le> 1 + d" using assms by linarith+
  have up: "ln (1 + d) \<le> 0" using neg pos by simp
  have "ln (1 / (1 + d)) \<le> 1 / (1 + d) - 1" using pos by (intro ln_le_minus_one) simp
  then have "- ln (1 + d) \<le> 1 / (1 + d) - 1" using pos by (simp add: ln_divide_pos)
  also have "1 / (1 + d) - 1 = - d / (1 + d)" using pos by (simp add: field_simps)
  also have "\<dots> \<le> - d / (1 / 2)" using neg pos by (intro divide_left_mono) simp_all
  finally have "- ln (1 + d) \<le> 2 * (- d)" by simp
  with up neg show ?thesis by simp
qed

lemma exp_minus_one_abs:
  fixes d :: real
  assumes "\<bar>d\<bar> \<le> 1"
  shows "\<bar>exp d - 1\<bar> \<le> 2 * \<bar>d\<bar>"
proof (cases "0 \<le> d")
  case True
  with assms have "exp d \<le> 1 + d + d\<^sup>2" by (intro exp_bound) simp_all
  moreover have "d\<^sup>2 \<le> d" using True assms by (simp add: power2_eq_square mult_left_le)
  moreover have "1 \<le> exp d" using True by simp
  ultimately show ?thesis using True by simp
next
  case False
  then have "exp d \<le> 1" by simp
  moreover have "1 + d \<le> exp d" by (rule exp_ge_add_one_self)
  ultimately show ?thesis using False by linarith
qed

subsection \<open>Neighbouring exact values are at least a sixteenth apart\<close>

lemma exact_gap:
  fixes e :: real
  assumes e: "10 / 13 \<le> e" "e \<le> 10 / 7" and i: "i < 255"
  shows "1 / 16 \<le> (real (Suc i) / 255) powr e * 255 - (real i / 255) powr e * 255"
proof -
  define a where "a = real i / 255"
  define h where "h = (1 :: real) / 255"
  have b: "real (Suc i) / 255 = a + h" by (simp add: a_def h_def add_divide_distrib)
  have a0: "0 \<le> a" by (simp add: a_def)
  have b1: "a + h \<le> 1" using i by (simp add: a_def h_def)
  have hpos: "0 < h" by (simp add: h_def)
  have "1 / (16 * 255) \<le> (a + h) powr e - a powr e"
  proof (cases "e \<le> 1")
    case True
    have "e * ((a + h) - a) \<le> (a + h) powr e - a powr e"
      using a0 hpos b1 e True by (intro powr_gap_concave) simp_all
    moreover have "1 / (16 * 255) \<le> e * h" using e by (simp add: h_def)
    ultimately show ?thesis by simp
  next
    case False
    then have e1: "1 \<le> e" by simp
    have sup: "a powr e + h powr e \<le> (a + h) powr e"
      using a0 hpos e1 by (rule powr_superadditive)
    have le: "h powr (3 / 2) \<le> h powr e"
      using e by (intro powr_mono') (simp_all add: h_def)
    have "h powr (3 / 2) = h powr 1 * h powr (1 / 2)"
      using powr_add [of h 1 "1 / 2"] by simp
    also have "h powr (1 / 2) = sqrt h" using hpos by (simp add: powr_half_sqrt)
    also have "h powr 1 = h" using hpos by simp
    finally have eq: "h powr (3 / 2) = h * sqrt h" .
    have s16: "1 / 16 \<le> sqrt h"
      by (rule real_le_rsqrt) (simp add: h_def power2_eq_square)
    have "h * (1 / 16) \<le> h * sqrt h"
      using hpos s16 by (intro mult_left_mono) simp_all
    also have "\<dots> \<le> h powr e" using le eq by simp
    finally have "h * (1 / 16) \<le> h powr e" .
    then have "1 / (16 * 255) \<le> h powr e" by (simp add: h_def)
    with sup show ?thesis by linarith
  qed
  then have "(1 / (16 * 255)) * 255 \<le> ((a + h) powr e - a powr e) * 255"
    by (intro mult_right_mono) simp_all
  then show ?thesis unfolding b a_def by (simp add: algebra_simps)
qed

lemma exact_mono:
  fixes e :: real
  assumes "0 \<le> e" "i \<le> j"
  shows "(real i / 255) powr e * 255 \<le> (real j / 255) powr e * 255"
  using assms by (intro mult_right_mono powr_mono2) (simp_all add: divide_right_mono)

lemma exact_gap_lt:
  fixes e :: real
  assumes e: "10 / 13 \<le> e" "e \<le> 10 / 7" and ij: "i < j" "j < 256"
  shows "1 / 16 \<le> (real j / 255) powr e * 255 - (real i / 255) powr e * 255"
proof -
  have "1 / 16 \<le> (real (Suc i) / 255) powr e * 255 - (real i / 255) powr e * 255"
    using e ij by (intro exact_gap) simp_all
  moreover have "(real (Suc i) / 255) powr e * 255 \<le> (real j / 255) powr e * 255"
    using e ij by (intro exact_mono) simp_all
  ultimately show ?thesis by linarith
qed

subsection \<open>A power of perturbed arguments\<close>

lemma ln_small_abs:
  fixes x :: real
  assumes "1 / 255 \<le> x" "x \<le> 1"
  shows "\<bar>ln x\<bar> \<le> 254"
proof -
  have xpos: "0 < x" using assms by linarith
  have up: "ln x \<le> 0" using xpos assms by simp
  have "ln (1 / x) \<le> 1 / x - 1" using xpos by (intro ln_le_minus_one) simp
  moreover have "ln (1 / x) = - ln x" using xpos by (simp add: ln_divide_pos)
  moreover have "1 / x \<le> 255" using xpos assms by (simp add: field_simps)
  ultimately have "- ln x \<le> 254" by linarith
  with up show ?thesis by simp
qed

lemma powr_perturb:
  fixes x xh e eh :: real
  assumes x: "1 / 255 \<le> x" "x \<le> 1"
    and e: "10 / 13 \<le> e" "e \<le> 10 / 7"
    and xh: "\<bar>xh - x\<bar> \<le> x / 1000000000"
    and eh: "\<bar>eh - e\<bar> \<le> e / 1000000000"
  shows "\<bar>xh powr eh - x powr e\<bar> \<le> 1 / 1000000"
proof -
  have xpos: "0 < x" using x by linarith
  define d where "d = (xh - x) / x"
  have dabs: "\<bar>d\<bar> \<le> 1 / 1000000000"
  proof -
    have "\<bar>d\<bar> = \<bar>xh - x\<bar> / x" using xpos by (simp add: d_def)
    also have "\<dots> \<le> (x / 1000000000) / x" using xh xpos by (intro divide_right_mono) simp_all
    also have "\<dots> = 1 / 1000000000" using xpos by simp
    finally show ?thesis .
  qed
  have xh_eq: "xh = x * (1 + d)" using xpos by (simp add: d_def field_simps)
  have d1pos: "0 < 1 + d" using dabs by linarith
  have xhpos: "0 < xh" unfolding xh_eq using xpos d1pos by simp
  have lnxh: "ln xh = ln x + ln (1 + d)"
    unfolding xh_eq using xpos d1pos by (rule ln_mult_pos)
  have lnd: "\<bar>ln (1 + d)\<bar> \<le> 2 / 1000000000"
  proof -
    have "\<bar>ln (1 + d)\<bar> \<le> 2 * \<bar>d\<bar>" using dabs by (intro ln_one_plus_abs) simp
    with dabs show ?thesis by simp
  qed
  have lnx: "\<bar>ln x\<bar> \<le> 254" using x by (rule ln_small_abs)
  have ehabs: "\<bar>eh - e\<bar> \<le> (10 / 7) / 1000000000"
  proof -
    have "e / 1000000000 \<le> (10 / 7) / 1000000000" using e by (intro divide_right_mono) simp_all
    with eh show ?thesis by linarith
  qed
  have eh2: "\<bar>eh\<bar> \<le> 2" using ehabs e by linarith
  define D where "D = eh * ln xh - e * ln x"
  have D_eq: "D = (eh - e) * ln x + eh * ln (1 + d)"
    unfolding D_def lnxh by (simp add: algebra_simps)
  have t1: "\<bar>(eh - e) * ln x\<bar> \<le> ((10 / 7) / 1000000000) * 254"
    unfolding abs_mult using ehabs lnx by (intro mult_mono) simp_all
  have t2: "\<bar>eh * ln (1 + d)\<bar> \<le> 2 * (2 / 1000000000)"
    unfolding abs_mult using eh2 lnd by (intro mult_mono) simp_all
  have "\<bar>D\<bar> \<le> \<bar>(eh - e) * ln x\<bar> + \<bar>eh * ln (1 + d)\<bar>"
    unfolding D_eq by (rule abs_triangle_ineq)
  with t1 t2 have Dabs: "\<bar>D\<bar> \<le> 367 / 1000000000" by simp
  then have D1: "\<bar>D\<bar> \<le> 1" by simp
  have "xh powr eh = exp (eh * ln xh)" using xhpos by (simp add: powr_def)
  also have "eh * ln xh = e * ln x + D" by (simp add: D_def)
  also have "exp (e * ln x + D) = exp (e * ln x) * exp D" by (rule exp_add)
  also have "exp (e * ln x) = x powr e" using xpos by (simp add: powr_def)
  finally have eq: "xh powr eh = x powr e * exp D" .
  have p1: "x powr e \<le> 1" using x e xpos by (intro powr_le1) simp_all
  have p0: "0 \<le> x powr e" by simp
  have "x powr e * exp D - x powr e = x powr e * (exp D - 1)"
    by (simp add: algebra_simps)
  then have "\<bar>xh powr eh - x powr e\<bar> = \<bar>x powr e\<bar> * \<bar>exp D - 1\<bar>"
    unfolding eq by (simp only: abs_mult)
  also have "\<bar>x powr e\<bar> = x powr e" using p0 by simp
  finally have "\<bar>xh powr eh - x powr e\<bar> = x powr e * \<bar>exp D - 1\<bar>" .
  also have "\<dots> \<le> 1 * (2 * \<bar>D\<bar>)"
    using p1 p0 exp_minus_one_abs [OF D1] by (intro mult_mono) simp_all
  also have "\<dots> \<le> 1 / 1000000" using Dabs by simp
  finally show ?thesis .
qed

subsection \<open>What an accurate unit computes\<close>

lemma py_round_near: "\<bar>of_int (py_round x) - x\<bar> \<le> 1 / 2"
proof -
  have "of_int \<lfloor>x\<rfloor> \<le> x" "x < of_int \<lfloor>x\<rfloor> + 1" by linarith+
  then show ?thesis by (auto simp: py_round_def Let_def)
qed

lemma py_round_unique: "of_int k - 1 / 2 < x \<Longrightarrow> x < of_int k + 1 / 2 \<Longrightarrow> py_round x = k"
proof -
  assume a: "of_int k - 1 / 2 < x" "x < of_int k + 1 / 2"
  have "\<bar>of_int (py_round x) - x\<bar> \<le> 1 / 2" by (rule py_round_near)
  with a have "\<bar>(of_int (py_round x) :: real) - of_int k\<bar> < 1" by linarith
  then have "\<bar>(of_int (py_round x - k) :: real)\<bar> < 1" by simp
  then have "\<bar>py_round x - k\<bar> < 1" by linarith
  then show ?thesis by simp
qed

lemma acc_div:
  "fpu_accurate fp \<Longrightarrow> a = 0 \<or> 1 \<le> a \<Longrightarrow> a \<le> 255 \<Longrightarrow> 1 / 2 \<le> b \<Longrightarrow> b \<le> 255 \<Longrightarrow>
   \<bar>fl_div fp a b - a / b\<bar> \<le> (a / b) / 1000000000"
  unfolding fpu_accurate_def by blast

lemma acc_pow:
  "fpu_accurate fp \<Longrightarrow> 1 / 300 \<le> x \<Longrightarrow> x \<le> 2 \<Longrightarrow> 1 / 2 \<le> y \<Longrightarrow> y \<le> 2 \<Longrightarrow>
   \<bar>fl_pow fp x y - x powr y\<bar> \<le> (x powr y) / 1000000000"
  unfolding fpu_accurate_def by blast

lemma acc_mul:
  "fpu_accurate fp \<Longrightarrow> p = 0 \<or> 1 / 1000000 \<le> p \<Longrightarrow> p \<le> 2 \<Longrightarrow>
   \<bar>fl_mul fp p 255 - p * 255\<bar> \<le> (p * 255) / 1000000000"
  unfolding fpu_accurate_def by blast

lemma fp_ehat:
  assumes acc: "fpu_accurate fp" and g: "7 / 10 \<le> g" "g \<le> 13 / 10"
  shows "\<bar>fl_div fp 1 g - 1 / g\<bar> \<le> (1 / g) / 1000000000"
    and "10 / 13 \<le> 1 / g" and "1 / g \<le> 10 / 7"
    and "1 / 2 \<le> fl_div fp 1 g" and "fl_div fp 1 g \<le> 2"
proof -
  have gpos: "0 < g" using g by linarith
  show a: "\<bar>fl_div fp 1 g - 1 / g\<bar> \<le> (1 / g) / 1000000000"
    using g by (intro acc_div [OF acc]) simp_all
  show b: "10 / 13 \<le> 1 / g" using g gpos by (simp add: field_simps)
  show c: "1 / g \<le> 10 / 7" using g gpos by (simp add: field_simps)
  define e where "e = 1 / g"
  define r where "r = e / 1000000000"
  have be: "10 / 13 \<le> e" "e \<le> 10 / 7" using b c by (simp_all only: e_def)
  have d: "r \<le> 1 / 1000000" "0 \<le> r" using be by (simp_all add: r_def)
  have a': "\<bar>fl_div fp 1 g - e\<bar> \<le> r" using a by (simp only: r_def e_def)
  from a' be d show "1 / 2 \<le> fl_div fp 1 g" by linarith
  from a' be d show "fl_div fp 1 g \<le> 2" by linarith
qed

lemma fp_xhat:
  assumes acc: "fpu_accurate fp" and i: "0 < i" "i < 256"
  shows "\<bar>fl_div fp (real i) 255 - real i / 255\<bar> \<le> (real i / 255) / 1000000000"
    and "1 / 300 \<le> fl_div fp (real i) 255" and "fl_div fp (real i) 255 \<le> 2"
proof -
  have r: "1 \<le> real i" "real i \<le> 255" using i by simp_all
  show a: "\<bar>fl_div fp (real i) 255 - real i / 255\<bar> \<le> (real i / 255) / 1000000000"
    using r by (intro acc_div [OF acc]) simp_all
  have lo: "1 / 255 \<le> real i / 255" and hi: "real i / 255 \<le> 1" using r by simp_all
  define x where "x = real i / 255"
  define r where "r = x / 1000000000"
  have bx: "1 / 255 \<le> x" "x \<le> 1" using lo hi by (simp_all only: x_def)
  have d: "r \<le> 1 / 1000000000" "0 \<le> r" using bx by (simp_all add: r_def)
  have a': "\<bar>fl_div fp (real i) 255 - x\<bar> \<le> r" using a by (simp only: r_def x_def)
  from a' bx d show "1 / 300 \<le> fl_div fp (real i) 255" by linarith
  from a' bx d show "fl_div fp (real i) 255 \<le> 2" by linarith
qed

lemma fp_zero:
  assumes acc: "fpu_accurate fp"
  shows "fl_div fp 0 255 = 0" and "fl_mul fp 0 255 = 0"
proof -
  have "\<bar>fl_div fp 0 255 - 0 / 255\<bar> \<le> (0 / 255) / 1000000000"
    by (intro acc_div [OF acc]) simp_all
  then show "fl_div fp 0 255 = 0" by simp
  have "\<bar>fl_mul fp 0 255 - 0 * 255\<bar> \<le> (0 * 255) / 1000000000"
    by (intro acc_mul [OF acc]) simp_all
  then show "fl_mul fp 0 255 = 0" by simp
qed

lemma fp_entry_close:
  assumes acc: "fpu_accurate fp" and g: "7 / 10 \<le> g" "g \<le> 13 / 10" and i: "i < 256"
  shows "\<bar>fp_entry fp g i - exact_entry g i\<bar> \<le> 1 / 32"
proof (cases "i = 0")
  case True
  then show ?thesis by (simp add: fp_entry_def exact_entry_def fp_zero [OF acc])
next
  case False
  then have ipos: "0 < i" by simp
  define x where "x = real i / 255"
  define e where "e = 1 / g"
  define xh where "xh = fl_div fp (real i) 255"
  define eh where "eh = fl_div fp 1 g"
  define ph where "ph = fl_pow fp xh eh"
  define c where "c = fl_mul fp ph 255"
  note eb = fp_ehat [OF acc g, folded e_def eh_def]
  note xb = fp_xhat [OF acc ipos i, folded x_def xh_def]
  have xr: "1 / 255 \<le> x" "x \<le> 1" using ipos i by (simp_all add: x_def)
  have pe: "\<bar>xh powr eh - x powr e\<bar> \<le> 1 / 1000000"
    using xr eb(2,3) xb(1) eb(1) by (rule powr_perturb)
  have p1: "x powr e \<le> 1" using xr eb(2) by (intro powr_le1) simp_all
  have "x powr 2 \<le> x powr e"
    using xr eb(3) by (intro powr_mono') simp_all
  moreover have "x powr 2 = x\<^sup>2" using xr by simp
  moreover have "(1 / 255)\<^sup>2 \<le> x\<^sup>2" using xr by (intro power_mono) simp_all
  ultimately have p0: "1 / 65025 \<le> x powr e" by (simp add: power2_eq_square)
  have pa: "\<bar>ph - xh powr eh\<bar> \<le> (xh powr eh) / 1000000000"
    unfolding ph_def using xb(2,3) eb(4,5) by (intro acc_pow [OF acc])
  have xhe: "xh powr eh \<le> 2" using pe p1 by linarith
  have "(xh powr eh) / 1000000000 \<le> 2 / 1000000000"
    using xhe by (intro divide_right_mono) simp_all
  with pa have pa': "\<bar>ph - xh powr eh\<bar> \<le> 2 / 1000000000" by linarith
  have pc: "\<bar>ph - x powr e\<bar> \<le> 2 / 1000000" using pa' pe by linarith
  have phr: "1 / 1000000 \<le> ph" "ph \<le> 2" using pc p0 p1 by linarith+
  have ca: "\<bar>c - ph * 255\<bar> \<le> (ph * 255) / 1000000000"
    unfolding c_def using phr by (intro acc_mul [OF acc]) simp_all
  have "(ph * 255) / 1000000000 \<le> (2 * 255) / 1000000000"
    using phr by (intro divide_right_mono mult_right_mono) simp_all
  with ca have ca': "\<bar>c - ph * 255\<bar> \<le> 510 / 1000000000" by simp
  have pc': "\<bar>ph * 255 - x powr e * 255\<bar> \<le> 510 / 1000000" using pc by linarith
  from ca' pc' have "\<bar>c - x powr e * 255\<bar> \<le> 1 / 32" by linarith
  moreover have "fp_entry fp g i = c"
    using False by (simp add: fp_entry_def c_def ph_def xh_def eh_def)
  moreover have "exact_entry g i = x powr e * 255"
    by (simp add: exact_entry_def x_def e_def)
  ultimately show ?thesis by simp
qed

lemma fp_lut_entry_eq:
  assumes acc: "fpu_accurate fp" and g: "7 / 10 \<le> g" "g \<le> 13 / 10" and i: "i < 256"
  shows "fp_lut_entry fp (fl_div fp 1 g) i = Inr (py_round (fp_entry fp g i))"
proof (cases "i = 0")
  case True
  have "fl_div fp 1 g \<noteq> 0" "\<not> fl_div fp 1 g < 0" using fp_ehat(4) [OF acc g] by linarith+
  with True show ?thesis
    by (simp add: fp_lut_entry_def fp_truediv_def fp_pow_def fp_entry_def fp_zero [OF acc])
next
  case False
  then have ipos: "0 < i" by simp
  have "fl_div fp 1 g \<noteq> 0" using fp_ehat(4) [OF acc g] by linarith
  moreover have "0 < fl_div fp (real i) 255" "fl_div fp (real i) 255 \<noteq> 0"
    using fp_xhat(2) [OF acc ipos i] by linarith+
  ultimately show ?thesis using False
    by (simp add: fp_lut_entry_def fp_truediv_def fp_pow_def fp_entry_def)
qed

lemma gamma_lut_fp_eq:
  assumes acc: "fpu_accurate fp" and g: "7 / 10 \<le> g" "g \<le> 13 / 10"
  shows "gamma_lut_fp fp g = Inr (map (\<lambda>i. py_round (fp_entry fp g i)) [0..<256])"
proof -
  have mx: "max g (1 / 1000000) = g" using g by (simp add: max_def)
  have g0: "g \<noteq> 0" using g by linarith
  have "map_result (fp_lut_entry fp (fl_div fp 1 g)) [0..<256] =
      Inr (map (\<lambda>i. py_round (fp_entry fp g i)) [0..<256])"
    by (rule map_result_all_ok) (simp add: fp_lut_entry_eq [OF acc g] del: upt.simps)
  then show ?thesis by (simp add: gamma_lut_fp_def mx fp_truediv_def g0 del: upt.simps)
qed

lemma fpu_accurate_exact: "fpu_accurate exact_fpu"
  by (auto simp: fpu_accurate_def exact_fpu_def)

lemma gamma_lut_fp_exact: "gamma_lut_fp exact_fpu g = gamma_lut g"
proof -
  have "fp_lut_entry exact_fpu e i = lut_entry e i" for e i
    by (simp add: fp_lut_entry_def lut_entry_def fp_truediv_def py_truediv_def fp_pow_def
        py_pow_def exact_fpu_def bind_result_def powr_int split: sum.splits)
  then have "fp_lut_entry exact_fpu e = lut_entry e" for e by (rule ext)
  then show ?thesis
    by (simp add: gamma_lut_fp_def gamma_lut_def gamma_inv_def fp_truediv_def py_truediv_def
        exact_fpu_def del: upt.simps)
qed

subsection \<open>The table\<close>

lemma py_round_minus_small: "py_round (- (1 / 32)) = 0"
  by (rule py_round_unique) simp_all

lemma py_round_255_small: "py_round (255 + 1 / 32) = 255"
  by (rule py_round_unique) simp_all

lemma exact_entry_ends: "exact_entry g 0 = 0" "exact_entry g 255 = 255"
  by (simp_all add: exact_entry_def)

lemma exact_entry_range:
  assumes "0 < g" "i < 256"
  shows "0 \<le> exact_entry g i" "exact_entry g i \<le> 255"
proof -
  show "0 \<le> exact_entry g i" by (simp add: exact_entry_def)
  have "(real i / 255) powr (1 / g) \<le> 1" using assms by (intro powr_le1) simp_all
  then show "exact_entry g i \<le> 255" by (simp add: exact_entry_def)
qed

text \<open>
  Claim C2. For a gamma between 0.7 and 1.3 the table is built without an exception, on
  every floating-point unit that is accurate in the sense above. Entry \<open>i\<close> is the rounding
  of the source expression \<^verbatim>\<open>(i / 255.0) ** inv * 255.0\<close> as the unit computes it; it differs
  by at most one from the rounding of the exact value, and is that rounding when the unit
  is exact. The first entry is 0 and the last is 255, every entry lies between 0 and 255,
  and the entries never decrease with \<open>i\<close>. The source has no clamp of its own and needs
  none: clamping the table to the range from 0 to 255 leaves it as it is. All of this holds
  whether or not gamma is far enough from 1.0 for the table to be applied.
\<close>

theorem gamma_table_in_range_and_monotone:
  assumes acc: "fpu_accurate fp" and g: "7 / 10 \<le> g" "g \<le> 13 / 10"
  shows "\<exists>lut. gamma_lut_fp fp g = Inr lut \<and> length lut = 256 \<and>
     (\<forall>i<256. fp_lut_entry fp (fl_div fp 1 g) i = Inr (lut ! i)) \<and>
     (\<forall>i<256. 0 < i \<longrightarrow>
        lut ! i = py_round (fl_mul fp (fl_pow fp (fl_div fp (real i) 255) (fl_div fp 1 g)) 255)) \<and>
     lut ! 0 = 0 \<and> lut ! 255 = 255 \<and>
     (\<forall>i<256. 0 \<le> lut ! i \<and> lut ! i \<le> 255) \<and>
     map (\<lambda>v. max 0 (min 255 v)) lut = lut \<and>
     (\<forall>i j. i \<le> j \<and> j < 256 \<longrightarrow> lut ! i \<le> lut ! j) \<and>
     (\<forall>i<256. \<bar>lut ! i - py_round ((real i / 255) powr (1 / g) * 255)\<bar> \<le> 1) \<and>
     gamma_lut_fp exact_fpu g =
       Inr (map (\<lambda>i. py_round ((real i / 255) powr (1 / g) * 255)) [0..<256])"
proof -
  define lut where "lut = map (\<lambda>i. py_round (fp_entry fp g i)) [0..<256]"
  have gpos: "0 < g" using g by linarith
  have eb: "10 / 13 \<le> 1 / g" "1 / g \<le> 10 / 7" using fp_ehat(2,3) [OF acc g] .
  have eq: "gamma_lut_fp fp g = Inr lut" unfolding lut_def by (rule gamma_lut_fp_eq [OF acc g])
  have len: "length lut = 256" by (simp add: lut_def)
  have nth: "lut ! i = py_round (fp_entry fp g i)" if "i < 256" for i
    using that unfolding lut_def by (simp del: upt.simps)
  have close: "\<bar>fp_entry fp g i - exact_entry g i\<bar> \<le> 1 / 32" if "i < 256" for i
    using that by (rule fp_entry_close [OF acc g])
  have src: "fp_lut_entry fp (fl_div fp 1 g) i = Inr (lut ! i)" if "i < 256" for i
    using that by (simp add: nth fp_lut_entry_eq [OF acc g])
  have form: "lut ! i = py_round (fl_mul fp (fl_pow fp (fl_div fp (real i) 255) (fl_div fp 1 g)) 255)"
    if "i < 256" "0 < i" for i
    using that by (simp add: nth fp_entry_def)
  have range: "0 \<le> lut ! i \<and> lut ! i \<le> 255" if "i < 256" for i
  proof -
    have lo: "- (1 / 32) \<le> fp_entry fp g i"
      using close [OF that] exact_entry_range(1) [OF gpos that] by linarith
    have hi: "fp_entry fp g i \<le> 255 + 1 / 32"
      using close [OF that] exact_entry_range(2) [OF gpos that] by linarith
    have "py_round (- (1 / 32)) \<le> py_round (fp_entry fp g i)"
      using lo by (rule py_round_mono)
    then have a: "0 \<le> py_round (fp_entry fp g i)" by (simp only: py_round_minus_small)
    have "py_round (fp_entry fp g i) \<le> py_round (255 + 1 / 32)"
      using hi by (rule py_round_mono)
    then have b: "py_round (fp_entry fp g i) \<le> 255" by (simp only: py_round_255_small)
    from a b show ?thesis by (simp add: nth [OF that])
  qed
  have first: "lut ! 0 = 0"
    by (simp add: nth fp_entry_def fp_zero [OF acc] py_round_of_int [of 0, simplified])
  have last: "lut ! 255 = 255"
  proof -
    have c: "\<bar>fp_entry fp g 255 - 255\<bar> \<le> 1 / 32"
      using close [of 255] by (simp add: exact_entry_ends)
    have k: "(of_int 255 :: real) = 255" by simp
    have "of_int 255 - 1 / 2 < fp_entry fp g 255" unfolding k using c by linarith
    moreover have "fp_entry fp g 255 < of_int 255 + 1 / 2" unfolding k using c by linarith
    ultimately have "py_round (fp_entry fp g 255) = 255" by (rule py_round_unique)
    then show ?thesis by (simp add: nth)
  qed
  have clamp: "map (\<lambda>v. max 0 (min 255 v)) lut = lut"
  proof (rule nth_equalityI)
    show "length (map (\<lambda>v. max 0 (min 255 v)) lut) = length lut" by simp
  next
    fix i assume "i < length (map (\<lambda>v. max 0 (min 255 v)) lut)"
    then have "i < 256" by (simp add: len)
    with range [of i] show "map (\<lambda>v. max 0 (min 255 v)) lut ! i = lut ! i"
      by (simp add: len)
  qed
  have mono: "lut ! i \<le> lut ! j" if "i \<le> j" "j < 256" for i j
  proof (cases "i = j")
    case True
    then show ?thesis by simp
  next
    case False
    with that have lt: "i < j" by simp
    have "1 / 16 \<le> exact_entry g j - exact_entry g i"
      unfolding exact_entry_def using eb lt that(2) by (intro exact_gap_lt)
    moreover have "\<bar>fp_entry fp g i - exact_entry g i\<bar> \<le> 1 / 32"
      using lt that by (intro close) simp
    moreover have "\<bar>fp_entry fp g j - exact_entry g j\<bar> \<le> 1 / 32"
      using that by (intro close)
    ultimately have "fp_entry fp g i \<le> fp_entry fp g j" by linarith
    then have "py_round (fp_entry fp g i) \<le> py_round (fp_entry fp g j)" by (rule py_round_mono)
    then show ?thesis using lt that by (simp add: nth)
  qed
  have near: "\<bar>lut ! i - py_round ((real i / 255) powr (1 / g) * 255)\<bar> \<le> 1" if "i < 256" for i
  proof -
    have a: "\<bar>of_int (py_round (fp_entry fp g i)) - fp_entry fp g i\<bar> \<le> 1 / 2"
      by (rule py_round_near)
    have b: "\<bar>of_int (py_round (exact_entry g i)) - exact_entry g i\<bar> \<le> 1 / 2"
      by (rule py_round_near)
    from a b close [OF that]
    have "\<bar>(of_int (py_round (fp_entry fp g i)) :: real) - of_int (py_round (exact_entry g i))\<bar> < 2"
      by linarith
    then have "\<bar>(of_int (py_round (fp_entry fp g i) - py_round (exact_entry g i)) :: real)\<bar> < 2"
      by simp
    then have "\<bar>py_round (fp_entry fp g i) - py_round (exact_entry g i)\<bar> < 2" by linarith
    then show ?thesis by (simp add: nth [OF that] exact_entry_def)
  qed
  have exact: "gamma_lut_fp exact_fpu g =
       Inr (map (\<lambda>i. py_round ((real i / 255) powr (1 / g) * 255)) [0..<256])"
  proof -
    have mx: "max g (1 / 1000000) = g" using g by (simp add: max_def)
    show ?thesis unfolding gamma_lut_fp_exact gamma_lut_eq mx ..
  qed
  show ?thesis
    using eq len src form first last range clamp mono near exact by blast
qed

text \<open>
  The exact unit is accurate. At gamma = 0.8 the exponent is 5/4, and entry 128 of the table
  is 108.
\<close>

lemma entry_128_at_gamma_08: "py_round ((128 / 255) powr (5 / 4) * 255) = 108"
proof -
  define t :: real where "t = (128 / 255) powr (1 / 4)"
  have root: "(a ^ 4) powr (1 / 4) = a" if "0 < a" for a :: real
  proof -
    have "(a ^ 4) powr (1 / 4) = (a powr 4) powr (1 / 4)" using that by simp
    also have "\<dots> = a powr (4 * (1 / 4))" by (rule powr_powr)
    also have "\<dots> = a" using that by simp
    finally show ?thesis .
  qed
  have lo: "215 / 256 < t"
  proof -
    have "((215 / 256) ^ 4 :: real) < 128 / 255" by (simp add: power_divide)
    then have "((215 / 256) ^ 4) powr (1 / 4) < (128 / 255 :: real) powr (1 / 4)"
      by (intro powr_less_mono2) simp_all
    then show ?thesis by (simp add: root t_def)
  qed
  have hi: "t < 217 / 256"
  proof -
    have "(128 / 255 :: real) < (217 / 256) ^ 4" by (simp add: power_divide)
    then have "(128 / 255 :: real) powr (1 / 4) < ((217 / 256) ^ 4) powr (1 / 4)"
      by (intro powr_less_mono2) simp_all
    then show ?thesis by (simp add: root t_def)
  qed
  have "(128 / 255 :: real) powr (5 / 4) = (128 / 255) powr 1 * (128 / 255) powr (1 / 4)"
    using powr_add [of "128 / 255 :: real" 1 "1 / 4"] by simp
  then have v: "(128 / 255 :: real) powr (5 / 4) * 255 = 128 * t" by (simp add: t_def)
  show ?thesis unfolding v by (rule py_round_unique) (use lo hi in simp_all)
qed

theorem gamma_table_in_range_and_monotone_witness:
  "fpu_accurate exact_fpu \<and> (7 / 10 :: real) \<le> 4 / 5 \<and> (4 / 5 :: real) \<le> 13 / 10 \<and>
   (\<exists>lut. gamma_lut_fp exact_fpu (4 / 5) = Inr lut \<and> length lut = 256 \<and>
      lut ! 0 = 0 \<and> lut ! 128 = 108 \<and> lut ! 255 = 255 \<and>
      (\<forall>i<256. 0 \<le> lut ! i \<and> lut ! i \<le> 255) \<and>
      (\<forall>i j. i \<le> j \<and> j < 256 \<longrightarrow> lut ! i \<le> lut ! j))"
proof -
  have h1: "(7 / 10 :: real) \<le> 4 / 5" and h2: "(4 / 5 :: real) \<le> 13 / 10" by simp_all
  from gamma_table_in_range_and_monotone [OF fpu_accurate_exact h1 h2]
  obtain lut where l: "gamma_lut_fp exact_fpu (4 / 5) = Inr lut" "length lut = 256"
    "\<forall>i<256. 0 < i \<longrightarrow> lut ! i = py_round (fl_mul exact_fpu
        (fl_pow exact_fpu (fl_div exact_fpu (real i) 255) (fl_div exact_fpu 1 (4 / 5))) 255)"
    "lut ! 0 = 0" "lut ! 255 = 255"
    "\<forall>i<256. 0 \<le> lut ! i \<and> lut ! i \<le> 255"
    "\<forall>i j. i \<le> j \<and> j < 256 \<longrightarrow> lut ! i \<le> lut ! j"
    by blast
  from l(3) have "lut ! 128 = py_round (fl_mul exact_fpu
        (fl_pow exact_fpu (fl_div exact_fpu (real 128) 255) (fl_div exact_fpu 1 (4 / 5))) 255)"
    by simp
  then have "lut ! 128 = 108" by (simp add: exact_fpu_def entry_128_at_gamma_08)
  with l fpu_accurate_exact h1 h2 show ?thesis by blast
qed

section \<open>Claims about the converters\<close>

lemma test_open_anim:
  "img_open test_pil test_fs ''/pics/old/anim.gif'' =
     Inr \<lparr>t_mode = ''P'', t_animated = Some True, t_ops = []\<rparr>"
  unfolding test_pil_def test_open_def test_fs_def by code_simp

text \<open>
  Claim C4. When the opened image has its animation flag set, each of the three converters
  \<^verbatim>\<open>convert_one\<close>, \<^verbatim>\<open>convert_to_gray\<close> and \<^verbatim>\<open>convert_fullres\<close> returns failure with the
  skip reason for animated images, and the set of existing files is what it was: nothing is
  converted and nothing is written.
\<close>

theorem animated_input_skipped:
  assumes "img_open lib fs src = Inr im" and "is_animated lib im = Some True"
  shows "convert_one lib out_dir fs src cfg = Some (Inl AnimatedSkip, fs) \<and>
         convert_to_gray lib out_dir fs src = Some (Inl AnimatedSkip, fs) \<and>
         convert_fullres lib out_dir fs src cfg = Some (Inl AnimatedSkip, fs)"
  using assms by (simp add: convert_one_def convert_to_gray_def convert_fullres_def get_default_def)

text \<open>The animated file of the stand-in file system is skipped by all three converters.\<close>

theorem animated_input_skipped_witness:
  "img_open test_pil test_fs ''/pics/old/anim.gif'' =
     Inr \<lparr>t_mode = ''P'', t_animated = Some True, t_ops = []\<rparr> \<and>
   is_animated test_pil \<lparr>t_mode = ''P'', t_animated = Some True, t_ops = []\<rparr> = Some True \<and>
   convert_one test_pil ''/out'' test_fs ''/pics/old/anim.gif'' all_on_cfg =
     Some (Inl AnimatedSkip, test_fs) \<and>
   convert_to_gray test_pil ''/out'' test_fs ''/pics/old/anim.gif'' =
     Some (Inl AnimatedSkip, test_fs) \<and>
   convert_fullres test_pil ''/out'' test_fs ''/pics/old/anim.gif'' all_on_cfg =
     Some (Inl AnimatedSkip, test_fs)"
proof -
  have h2: "is_animated test_pil \<lparr>t_mode = ''P'', t_animated = Some True, t_ops = []\<rparr> = Some True"
    by (simp add: test_pil_def)
  show ?thesis
    using test_open_anim h2 animated_input_skipped [OF test_open_anim h2, of "''/out''" all_on_cfg]
    by simp
qed

section \<open>Lower-casing and the extension test\<close>

lemma lower_char_sep: "c = CHR ''/'' \<or> c = CHR ''.'' \<Longrightarrow> lower_char x = c \<longleftrightarrow> x = c"
proof -
  assume c: "c = CHR ''/'' \<or> c = CHR ''.''"
  show ?thesis
  proof (cases "65 \<le> (of_char x :: nat) \<and> (of_char x :: nat) \<le> 90")
    case True
    then have "(of_char (lower_char x) :: nat) = of_char x + 32"
      by (simp add: lower_char_def Let_def)
    with True have "(of_char (lower_char x) :: nat) \<ge> 97" by simp
    moreover have "(of_char c :: nat) < 48" using c by auto
    moreover have "(of_char x :: nat) \<noteq> of_char c" using True \<open>(of_char c :: nat) < 48\<close> by linarith
    ultimately show ?thesis by force
  next
    case False
    then show ?thesis by (auto simp: lower_char_def Let_def)
  qed
qed

lemma lower_char_idem: "lower_char (lower_char x) = lower_char x"
proof (cases "65 \<le> (of_char x :: nat) \<and> (of_char x :: nat) \<le> 90")
  case True
  then have "(of_char (lower_char x) :: nat) = of_char x + 32"
    by (simp add: lower_char_def Let_def)
  with True have "\<not> (of_char (lower_char x) :: nat) \<le> 90" by simp
  then show ?thesis by (subst lower_char_def) (simp add: Let_def)
next
  case False
  then show ?thesis by (auto simp: lower_char_def Let_def)
qed

lemma lower_idem: "lower (lower s) = lower s"
  by (simp add: lower_def lower_char_idem)

lemma rfind_lower: "c = CHR ''/'' \<or> c = CHR ''.'' \<Longrightarrow> rfind c (lower p) = rfind c p"
  by (induction p) (simp_all add: lower_def Let_def lower_char_sep)

lemma list_ex_nondot_lower:
  "list_ex (\<lambda>c. c \<noteq> CHR ''.'') (lower s) = list_ex (\<lambda>c. c \<noteq> CHR ''.'') s"
  by (induction s) (simp_all add: lower_def lower_char_sep)

lemma take_lower: "take n (lower s) = lower (take n s)"
  by (simp add: lower_def take_map)

lemma drop_lower: "drop n (lower s) = lower (drop n s)"
  by (simp add: lower_def drop_map)

lemma splitext_lower:
  "splitext (lower p) = (lower (fst (splitext p)), lower (snd (splitext p)))"
  by (simp add: splitext_def Let_def rfind_lower take_lower drop_lower list_ex_nondot_lower)
     (simp add: lower_def)

lemma is_image_file_lower: "is_image_file (lower p) = is_image_file p"
  by (simp add: is_image_file_def splitext_lower lower_idem)

lemma is_image_file_upper_examples:
  "is_image_file ''photo.JPG''" "is_image_file ''scan.Png''" "\<not> is_image_file ''notes.TXT''"
  "is_image_file ''/pics/Holiday.JPEG''" "\<not> is_image_file ''JPG''"
  by code_simp+

text \<open>
  Claim C10. The extension test ignores the case of letters: \<^verbatim>\<open>is_image_file\<close> accepts a path
  exactly when its extension, lower-cased, is one of the recognised extensions; lower-casing
  a whole path does not change the answer, and two paths that differ only in the case of
  their letters get the same answer. Paths ending in \<^verbatim>\<open>.JPG\<close> or \<^verbatim>\<open>.Png\<close> are accepted.
\<close>

theorem is_image_file_case_insensitive:
  "(is_image_file p \<longleftrightarrow> lower (snd (splitext p)) \<in> IMAGE_EXTS) \<and>
   is_image_file (lower p) = is_image_file p \<and>
   (lower p = lower q \<longrightarrow> is_image_file p = is_image_file q) \<and>
   is_image_file ''photo.JPG'' \<and> is_image_file ''scan.Png'' \<and> \<not> is_image_file ''notes.TXT''"
proof -
  have "is_image_file p = is_image_file q" if "lower p = lower q"
    using that is_image_file_lower [of p] is_image_file_lower [of q] by simp
  then show ?thesis
    by (simp add: is_image_file_lower is_image_file_upper_examples) (simp add: is_image_file_def)
qed

text \<open>Two spellings of one file name that differ only in case.\<close>

lemma lower_example: "lower ''a.JPG'' = lower ''A.jpg''"
  by code_simp

theorem is_image_file_case_insensitive_witness:
  "lower ''a.JPG'' = lower ''A.jpg'' \<and> is_image_file ''a.JPG'' = is_image_file ''A.jpg''"
  using is_image_file_case_insensitive [of "''a.JPG''" "''A.jpg''"] lower_example by blast

section \<open>The allocator returns a free path\<close>

lemma digit_char_inj: "a < 10 \<Longrightarrow> b < 10 \<Longrightarrow> digit_char a = digit_char b \<Longrightarrow> a = b"
proof -
  assume a: "a < 10" and b: "b < 10" and eq: "digit_char a = digit_char b"
  have d: "distinct ''0123456789''" by simp
  have "a < length ''0123456789''" "b < length ''0123456789''" using a b by simp_all
  with d eq show "a = b" unfolding digit_char_def by (simp only: nth_eq_iff_index_eq)
qed

lemma str_nat_nonempty: "str_nat n \<noteq> []"
  by (subst str_nat.simps) simp

lemma str_nat_inj: "str_nat m = str_nat n \<Longrightarrow> m = n"
proof (induction m arbitrary: n rule: str_nat.induct)
  case (1 m)
  show ?case
  proof (cases "m < 10")
    case True
    then have m: "str_nat m = [digit_char m]" by (subst str_nat.simps) simp
    show ?thesis
    proof (cases "n < 10")
      case True
      then have "str_nat n = [digit_char n]" by (subst str_nat.simps) simp
      with m "1.prems" \<open>m < 10\<close> True show ?thesis by (intro digit_char_inj) simp_all
    next
      case False
      then have "str_nat n = str_nat (n div 10) @ [digit_char (n mod 10)]"
        by (subst str_nat.simps) simp
      with m "1.prems" str_nat_nonempty [of "n div 10"] show ?thesis by simp
    qed
  next
    case False
    then have m: "str_nat m = str_nat (m div 10) @ [digit_char (m mod 10)]"
      by (subst str_nat.simps) simp
    show ?thesis
    proof (cases "n < 10")
      case True
      then have "str_nat n = [digit_char n]" by (subst str_nat.simps) simp
      with m "1.prems" str_nat_nonempty [of "m div 10"] show ?thesis by simp
    next
      case nf: False
      then have n: "str_nat n = str_nat (n div 10) @ [digit_char (n mod 10)]"
        by (subst str_nat.simps) simp
      from m n "1.prems" have a: "str_nat (m div 10) = str_nat (n div 10)"
        and b: "digit_char (m mod 10) = digit_char (n mod 10)" by simp_all
      from "1.IH" [OF False a] have "m div 10 = n div 10" .
      moreover from b have "m mod 10 = n mod 10" by (intro digit_char_inj) simp_all
      ultimately show ?thesis by (metis div_mult_mod_eq)
    qed
  qed
qed

lemma str_nat_2: "str_nat 2 = ''2''"
  by (subst str_nat.simps) (simp add: digit_char_def)

text \<open>Joining with a fixed directory only prepends a fixed prefix when the heads agree.\<close>

lemma os_path_join_prefix:
  "\<exists>pre. \<forall>b. (b \<noteq> [] \<and> hd b = CHR ''/'') = h \<longrightarrow> os_path_join a b = (if h then b else pre @ b)"
  by (rule exI [of _ "if a = [] \<or> last a = CHR ''/'' then a else a @ ''/''"])
     (auto simp: os_path_join_def)

lemma candidate_head:
  "((name @ suffix @ ''-'' @ s @ ext) \<noteq> [] \<and> hd (name @ suffix @ ''-'' @ s @ ext) = CHR ''/'')
     = (name @ suffix \<noteq> [] \<and> hd (name @ suffix) = CHR ''/'')"
  by (cases name; cases suffix) simp_all

lemma candidate_inj: "candidate out_dir name suffix ext m = candidate out_dir name suffix ext n \<Longrightarrow> m = n"
proof -
  assume eq: "candidate out_dir name suffix ext m = candidate out_dir name suffix ext n"
  define h where "h = (name @ suffix \<noteq> [] \<and> hd (name @ suffix) = CHR ''/'')"
  obtain pre where pre: "\<And>b. (b \<noteq> [] \<and> hd b = CHR ''/'') = h \<Longrightarrow>
      os_path_join out_dir b = (if h then b else pre @ b)"
    using os_path_join_prefix [of h out_dir] by blast
  have cm: "candidate out_dir name suffix ext k =
      (if h then name @ suffix @ ''-'' @ str_nat k @ ext
       else pre @ name @ suffix @ ''-'' @ str_nat k @ ext)" for k
    unfolding candidate_def using pre [of "name @ suffix @ ''-'' @ str_nat k @ ext"]
      candidate_head [of name suffix "str_nat k" ext] by (simp add: h_def)
  from eq have "str_nat m = str_nat n" by (simp add: cm split: if_splits)
  then show "m = n" by (rule str_nat_inj)
qed

lemma free_candidate_exists:
  assumes "finite fs"
  shows "\<exists>k\<ge>2. candidate out_dir name suffix ext k \<notin> fs"
proof (rule ccontr)
  assume "\<not> ?thesis"
  then have sub: "candidate out_dir name suffix ext ` {2..} \<subseteq> fs" by auto
  have "inj_on (candidate out_dir name suffix ext) {2..}"
    by (rule inj_onI) (rule candidate_inj)
  moreover have "infinite {2::nat..}" by (simp add: infinite_Ici)
  ultimately have "infinite (candidate out_dir name suffix ext ` {2..})"
    using finite_imageD by blast
  with sub assms show False using finite_subset by blast
qed

lemma safe_out_loop_finds:
  assumes "candidate out_dir name suffix ext k \<notin> fs"
    and "\<forall>j. n \<le> j \<and> j < k \<longrightarrow> candidate out_dir name suffix ext j \<in> fs"
    and "n \<le> k" and "dst \<in> fs"
  shows "safe_out_loop fs out_dir name suffix ext n dst = Some (candidate out_dir name suffix ext k)"
  using assms
proof (induction "k - n" arbitrary: n dst)
  case 0
  then have "n = k" by simp
  with 0 show ?case by (simp add: safe_out_loop.simps)
next
  case (Suc d)
  then have lt: "n < k" by simp
  with Suc.prems have c: "candidate out_dir name suffix ext n \<in> fs" by simp
  have "safe_out_loop fs out_dir name suffix ext (n + 1) (candidate out_dir name suffix ext n) =
      Some (candidate out_dir name suffix ext k)"
    using Suc.hyps(2) Suc.prems lt c by (intro Suc.hyps(1)) auto
  with Suc.prems(4) show ?case by (subst safe_out_loop.simps) simp
qed

lemma safe_out_loop_free: "dst \<notin> fs \<Longrightarrow> safe_out_loop fs out_dir name suffix ext n dst = Some dst"
  by (subst safe_out_loop.simps) simp

lemma safe_out_loop_total:
  assumes "finite fs"
  shows "\<exists>r. safe_out_loop fs out_dir name suffix ext 2 dst = Some r \<and> r \<notin> fs \<and>
           (dst \<notin> fs \<longrightarrow> r = dst) \<and>
           (dst \<in> fs \<longrightarrow> (\<exists>n\<ge>2. r = candidate out_dir name suffix ext n \<and>
              (\<forall>m. 2 \<le> m \<and> m < n \<longrightarrow> candidate out_dir name suffix ext m \<in> fs)))"
proof (cases "dst \<in> fs")
  case False
  then show ?thesis by (simp add: safe_out_loop_free)
next
  case True
  define P where "P k \<longleftrightarrow> 2 \<le> k \<and> candidate out_dir name suffix ext k \<notin> fs" for k
  have ex: "\<exists>k. P k" using free_candidate_exists [OF assms] unfolding P_def by blast
  define k where "k = (LEAST k. P k)"
  have Pk: "P k" unfolding k_def using ex by (metis LeastI)
  have least: "\<not> P j" if "j < k" for j using that unfolding k_def by (rule not_less_Least)
  have below: "\<forall>j. 2 \<le> j \<and> j < k \<longrightarrow> candidate out_dir name suffix ext j \<in> fs"
    using least unfolding P_def by blast
  have "safe_out_loop fs out_dir name suffix ext 2 dst = Some (candidate out_dir name suffix ext k)"
    using Pk below True unfolding P_def by (intro safe_out_loop_finds) auto
  with Pk below True show ?thesis unfolding P_def by auto
qed

lemma safe_out_path_total:
  "finite fs \<Longrightarrow> \<exists>dst. safe_out_path fs out_dir filename suffix = Some dst \<and> dst \<notin> fs"
  using safe_out_loop_total [of fs out_dir "fst (splitext filename)" suffix "snd (splitext filename)"]
  by (simp add: safe_out_path_def Let_def split_beta) blast

lemma rfind_bounds: "- 1 \<le> rfind c p"
  by (induction p) (simp_all add: Let_def)

lemma rfind_nth: "0 \<le> rfind c p \<Longrightarrow> nat (rfind c p) < length p \<and> p ! nat (rfind c p) = c"
proof (induction p)
  case Nil
  then show ?case by simp
next
  case (Cons x xs)
  show ?case
  proof (cases "0 \<le> rfind c xs")
    case True
    with Cons.IH have "nat (rfind c xs) < length xs \<and> xs ! nat (rfind c xs) = c" by simp
    moreover have "nat (rfind c xs + 1) = Suc (nat (rfind c xs))" using True by simp
    ultimately show ?thesis using True by (simp add: Let_def)
  next
    case False
    with Cons.prems show ?thesis by (simp add: Let_def split: if_splits)
  qed
qed

lemma splitext_ext_head: "snd (splitext p) = [] \<or> hd (snd (splitext p)) = CHR ''.''"
proof (cases "rfind (CHR ''/'') p < rfind (CHR ''.'') p")
  case True
  with rfind_bounds [of "CHR ''/''" p] have "0 \<le> rfind (CHR ''.'') p" by linarith
  from rfind_nth [OF this] show ?thesis
    by (simp add: splitext_def Let_def hd_drop_conv_nth)
next
  case False
  then show ?thesis by (simp add: splitext_def Let_def)
qed

lemma base_candidate_differ:
  assumes "ext = [] \<or> hd ext = CHR ''.''"
  shows "os_path_join out_dir (name @ suffix @ ext) \<noteq> candidate out_dir name suffix ext n"
proof -
  define h where "h = (name @ suffix \<noteq> [] \<and> hd (name @ suffix) = CHR ''/'')"
  obtain pre where pre: "\<And>b. (b \<noteq> [] \<and> hd b = CHR ''/'') = h \<Longrightarrow>
      os_path_join out_dir b = (if h then b else pre @ b)"
    using os_path_join_prefix [of h out_dir] by blast
  have hb: "((name @ suffix @ ext) \<noteq> [] \<and> hd (name @ suffix @ ext) = CHR ''/'') = h"
    using assms unfolding h_def by (cases name; cases suffix) auto
  have "length (os_path_join out_dir (name @ suffix @ ext)) \<noteq>
        length (candidate out_dir name suffix ext n)"
    unfolding candidate_def
    using pre [OF hb] pre [of "name @ suffix @ ''-'' @ str_nat n @ ext"]
      candidate_head [of name suffix "str_nat n" ext]
    by (simp add: h_def split: if_splits)
  then show ?thesis by auto
qed

text \<open>
  Claim C3. When finitely many paths exist, \<^verbatim>\<open>safe_out_path\<close> returns, and the path it
  returns does not exist: it is the name, the suffix and the extension in the output
  directory when that path is free, and otherwise the candidate with \<^verbatim>\<open>-n\<close> before the
  extension for the smallest \<open>n\<close> from 2 on whose path is free. Once the first conversion of a
  source has written its file, the second is given the \<^verbatim>\<open>-2\<close> name (if that is free).
\<close>

theorem safe_out_path_allocates:
  assumes "finite fs" and "splitext filename = (name, ext)"
  shows "\<exists>dst. safe_out_path fs out_dir filename suffix = Some dst \<and> dst \<notin> fs \<and>
     (os_path_join out_dir (name @ suffix @ ext) \<notin> fs \<longrightarrow>
        dst = os_path_join out_dir (name @ suffix @ ext)) \<and>
     (os_path_join out_dir (name @ suffix @ ext) \<in> fs \<longrightarrow>
        (\<exists>n\<ge>2. dst = os_path_join out_dir (name @ suffix @ ''-'' @ str_nat n @ ext) \<and>
           (\<forall>m. 2 \<le> m \<and> m < n \<longrightarrow>
              os_path_join out_dir (name @ suffix @ ''-'' @ str_nat m @ ext) \<in> fs))) \<and>
     (os_path_join out_dir (name @ suffix @ ext) \<notin> fs \<and>
      os_path_join out_dir (name @ suffix @ ''-2'' @ ext) \<notin> fs \<longrightarrow>
        safe_out_path (insert (os_path_join out_dir (name @ suffix @ ext)) fs)
          out_dir filename suffix = Some (os_path_join out_dir (name @ suffix @ ''-2'' @ ext)))"
proof -
  let ?base = "os_path_join out_dir (name @ suffix @ ext)"
  have sp: "safe_out_path F out_dir filename suffix = safe_out_loop F out_dir name suffix ext 2 ?base" for F
    by (simp add: safe_out_path_def assms(2))
  have c2: "candidate out_dir name suffix ext 2 = os_path_join out_dir (name @ suffix @ ''-2'' @ ext)"
    by (simp add: candidate_def str_nat_2)
  have ext: "ext = [] \<or> hd ext = CHR ''.''"
    using splitext_ext_head [of filename] assms(2) by simp
  have second: "safe_out_path (insert ?base fs) out_dir filename suffix =
      Some (os_path_join out_dir (name @ suffix @ ''-2'' @ ext))"
    if "os_path_join out_dir (name @ suffix @ ''-2'' @ ext) \<notin> fs"
  proof -
    have "candidate out_dir name suffix ext 2 \<notin> insert ?base fs"
      using that base_candidate_differ [OF ext, of out_dir name suffix 2] by (simp add: c2)
    then have "safe_out_loop (insert ?base fs) out_dir name suffix ext 2 ?base =
        Some (candidate out_dir name suffix ext 2)"
      by (intro safe_out_loop_finds) auto
    then show ?thesis by (simp add: sp c2)
  qed
  from safe_out_loop_total [OF assms(1), of out_dir name suffix ext ?base] second
  show ?thesis unfolding sp candidate_def by auto
qed

text \<open>A third conversion of \<^verbatim>\<open>a.jpg\<close>, after a first and a second one.\<close>

lemma splitext_a_jpg: "splitext ''a.jpg'' = (''a'', ''.jpg'')"
  by code_simp

theorem safe_out_path_allocates_witness:
  "finite {''/out/a_adj.jpg'', ''/out/a_adj-2.jpg''} \<and> splitext ''a.jpg'' = (''a'', ''.jpg'') \<and>
   safe_out_path {''/out/a_adj.jpg'', ''/out/a_adj-2.jpg''} ''/out'' ''a.jpg'' ''_adj'' =
     Some ''/out/a_adj-3.jpg'' \<and>
   safe_out_path {} ''/out'' ''a.jpg'' ''_adj'' = Some ''/out/a_adj.jpg'' \<and>
   safe_out_path {''/out/a_adj.jpg''} ''/out'' ''a.jpg'' ''_adj'' = Some ''/out/a_adj-2.jpg''"
proof -
  have f: "finite {''/out/a_adj.jpg'', ''/out/a_adj-2.jpg''}" by simp
  have f0: "finite ({} :: string set)" by simp
  have j: "os_path_join ''/out'' (''a'' @ ''_adj'' @ ''.jpg'') = ''/out/a_adj.jpg''"
    "os_path_join ''/out'' (''a'' @ ''_adj'' @ ''-2'' @ ''.jpg'') = ''/out/a_adj-2.jpg''"
    by (simp_all add: os_path_join_def)
  have c: "os_path_join ''/out'' (''a'' @ ''_adj'' @ ''-'' @ str_nat n @ ''.jpg'') \<in>
      {''/out/a_adj.jpg'', ''/out/a_adj-2.jpg''} \<longleftrightarrow> str_nat n = ''2''" for n
    by (auto simp add: os_path_join_def)
  have s3: "str_nat 3 = ''3''" by (subst str_nat.simps) (simp add: digit_char_def)
  from safe_out_path_allocates [OF f splitext_a_jpg, of "''/out''" "''_adj''"]
  obtain dst n where dst: "safe_out_path {''/out/a_adj.jpg'', ''/out/a_adj-2.jpg''} ''/out'' ''a.jpg'' ''_adj'' = Some dst"
    and n: "2 \<le> n" "dst = os_path_join ''/out'' (''a'' @ ''_adj'' @ ''-'' @ str_nat n @ ''.jpg'')"
      "dst \<notin> {''/out/a_adj.jpg'', ''/out/a_adj-2.jpg''}"
      "\<forall>m. 2 \<le> m \<and> m < n \<longrightarrow> str_nat m = ''2''"
    unfolding j c by auto
  have "n = 3"
  proof -
    have "str_nat n \<noteq> ''2''" using n(2,3) c [of n] by simp
    then have "n \<noteq> 2" using str_nat_2 by auto
    moreover have "\<not> 3 < n"
    proof
      assume "3 < n"
      with n(4) have "str_nat 3 = ''2''" by simp
      with s3 show False by simp
    qed
    ultimately show ?thesis using n(1) by simp
  qed
  with dst n(2) s3 have a: "safe_out_path {''/out/a_adj.jpg'', ''/out/a_adj-2.jpg''} ''/out'' ''a.jpg'' ''_adj'' =
     Some ''/out/a_adj-3.jpg''" by (simp add: os_path_join_def)
  from safe_out_path_allocates [OF f0 splitext_a_jpg, of "''/out''" "''_adj''"]
  have b: "safe_out_path {} ''/out'' ''a.jpg'' ''_adj'' = Some ''/out/a_adj.jpg''"
    and b2: "safe_out_path {''/out/a_adj.jpg''} ''/out'' ''a.jpg'' ''_adj'' = Some ''/out/a_adj-2.jpg''"
    unfolding j by auto
  show ?thesis using f splitext_a_jpg a b b2 by simp
qed

section \<open>The collector: sorted, distinct, recognised\<close>

lemma add_walked_inv: "coll_inv env st \<Longrightarrow> coll_inv env (add_walked env dir fn st)"
  by (auto simp: coll_inv_def add_walked_def Let_def)

lemma add_walked_set:
  "snd st = set (fst st) \<Longrightarrow>
   set (fst (add_walked env dir fn st)) =
     set (fst st) \<union> {fp. fp = norm_path env (os_path_join dir fn) \<and> is_image_file fp}"
  by (auto simp: add_walked_def Let_def)

lemma fold_add_walked:
  "coll_inv env st \<Longrightarrow>
   coll_inv env (fold (add_walked env dir) fns st) \<and>
   set (fst (fold (add_walked env dir) fns st)) =
     set (fst st) \<union> {fp \<in> (\<lambda>fn. norm_path env (os_path_join dir fn)) ` set fns. is_image_file fp}"
proof (induction fns arbitrary: st)
  case Nil
  then show ?case by simp
next
  case (Cons fn fns)
  have i: "coll_inv env (add_walked env dir fn st)" using Cons.prems by (rule add_walked_inv)
  have s: "set (fst (add_walked env dir fn st)) =
     set (fst st) \<union> {fp. fp = norm_path env (os_path_join dir fn) \<and> is_image_file fp}"
    using Cons.prems by (intro add_walked_set) (simp add: coll_inv_def)
  from Cons.IH [OF i] show ?case unfolding s by auto
qed

lemma fold_walk:
  "coll_inv env st \<Longrightarrow>
   coll_inv env (fold (\<lambda>(dir, subdirs, fns) st'. fold (add_walked env dir) fns st') ws st) \<and>
   set (fst (fold (\<lambda>(dir, subdirs, fns) st'. fold (add_walked env dir) fns st') ws st)) =
     set (fst st) \<union> {fp \<in> (\<Union>(dir, subdirs, fns) \<in> set ws.
                         (\<lambda>fn. norm_path env (os_path_join dir fn)) ` set fns). is_image_file fp}"
proof (induction ws arbitrary: st)
  case Nil
  then show ?case by simp
next
  case (Cons w ws)
  obtain dir subdirs fns where w: "w = (dir, subdirs, fns)" by (cases w)
  let ?st1 = "fold (add_walked env dir) fns st"
  from fold_add_walked [OF Cons.prems, of dir fns]
  have i: "coll_inv env ?st1"
    and s: "set (fst ?st1) =
     set (fst st) \<union> {fp \<in> (\<lambda>fn. norm_path env (os_path_join dir fn)) ` set fns. is_image_file fp}"
    by simp_all
  have step: "fold (\<lambda>(dir, subdirs, fns) st'. fold (add_walked env dir) fns st') (w # ws) st =
      fold (\<lambda>(dir, subdirs, fns) st'. fold (add_walked env dir) fns st') ws ?st1"
    by (simp add: w)
  have split: "{fp \<in> (\<Union>(dir, subdirs, fns) \<in> set (w # ws).
                  (\<lambda>fn. norm_path env (os_path_join dir fn)) ` set fns). is_image_file fp} =
      {fp \<in> (\<lambda>fn. norm_path env (os_path_join dir fn)) ` set fns. is_image_file fp} \<union>
      {fp \<in> (\<Union>(dir, subdirs, fns) \<in> set ws.
                  (\<lambda>fn. norm_path env (os_path_join dir fn)) ` set fns). is_image_file fp}"
    unfolding w by simp blast
  from Cons.IH [OF i] show ?case
    unfolding step split s by (simp add: Un_assoc)
qed

lemma add_input_inv:
  assumes "coll_inv env st"
  shows "coll_inv env (add_input env p0 st) \<and>
         set (fst (add_input env p0 st)) = set (fst st) \<union> gathered env p0"
proof (cases "p0 = []")
  case True
  with assms show ?thesis by (simp add: add_input_def gathered_def)
next
  case False
  show ?thesis
  proof (cases "isdir env (norm_path env p0)")
    case True
    with False fold_walk [OF assms, of "walk env (norm_path env p0)"] show ?thesis
      by (simp add: add_input_def gathered_def Let_def)
  next
    case nd: False
    with False assms show ?thesis
      by (auto simp: add_input_def gathered_def Let_def coll_inv_def)
  qed
qed

lemma fold_add_input:
  "coll_inv env st \<Longrightarrow>
   coll_inv env (fold (add_input env) inputs st) \<and>
   set (fst (fold (add_input env) inputs st)) = set (fst st) \<union> (\<Union>p0 \<in> set inputs. gathered env p0)"
proof (induction inputs arbitrary: st)
  case Nil
  then show ?case by simp
next
  case (Cons p0 ps)
  from add_input_inv [OF Cons.prems, of p0]
  have i: "coll_inv env (add_input env p0 st)"
    and s: "set (fst (add_input env p0 st)) = set (fst st) \<union> gathered env p0" by simp_all
  from Cons.IH [OF i] show ?case unfolding s by auto
qed

lemma coll_inv_start: "coll_inv env ([], {})"
  by (simp add: coll_inv_def)

text \<open>
  Claim C7. The list \<^verbatim>\<open>collect_targets\<close> returns is sorted in the lexicographic order of
  strings, has no duplicates, holds only normalised paths whose lower-cased extension is
  one of jpg, jpeg, png, tif, tiff, bmp, gif, and holds exactly what the inputs contribute:
  the recognised files of the tree of each directory and each existing file argument with
  a recognised extension.
\<close>

theorem collect_targets_sorted_distinct:
  "sorted (collect_targets env inputs) \<and>
   distinct (collect_targets env inputs) \<and>
   (\<forall>p \<in> set (collect_targets env inputs).
      is_image_file p \<and> lower (snd (splitext p)) \<in>
        {''.jpg'', ''.jpeg'', ''.png'', ''.tif'', ''.tiff'', ''.bmp'', ''.gif''} \<and>
      p \<in> range (norm_path env)) \<and>
   set (collect_targets env inputs) = (\<Union>p0 \<in> set inputs. gathered env p0)"
proof -
  from fold_add_input [OF coll_inv_start, of env inputs]
  have i: "coll_inv env (fold (add_input env) inputs ([], {}))"
    and s: "set (fst (fold (add_input env) inputs ([], {}))) = (\<Union>p0 \<in> set inputs. gathered env p0)"
    by simp_all
  from i have "\<forall>p \<in> set (fst (fold (add_input env) inputs ([], {}))).
      is_image_file p \<and> lower (snd (splitext p)) \<in> IMAGE_EXTS \<and> p \<in> range (norm_path env)"
    unfolding coll_inv_def is_image_file_def by blast
  with i s show ?thesis
    unfolding collect_targets_def coll_inv_def IMAGE_EXTS_def by simp
qed

text \<open>
  The stand-in directory, given together with one of its own files, an empty argument and
  a text file.
\<close>

lemma collect_test_os:
  "collect_targets test_os [''/pics'', ''/pics/old/a.jpg'', '''', ''/pics/notes.txt''] =
     [''/pics/b.PNG'', ''/pics/old/a.jpg'', ''/pics/old/anim.gif'']"
  by code_simp

theorem collect_targets_sorted_distinct_witness:
  "collect_targets test_os [''/pics'', ''/pics/old/a.jpg'', '''', ''/pics/notes.txt''] =
     [''/pics/b.PNG'', ''/pics/old/a.jpg'', ''/pics/old/anim.gif''] \<and>
   ''/pics/b.PNG'' \<in> set [''/pics/b.PNG'', ''/pics/old/a.jpg'', ''/pics/old/anim.gif''] \<and>
   is_image_file ''/pics/b.PNG'' \<and>
   sorted [''/pics/b.PNG'', ''/pics/old/a.jpg'', ''/pics/old/anim.gif''] \<and>
   distinct [''/pics/b.PNG'', ''/pics/old/a.jpg'', ''/pics/old/anim.gif'']"
proof -
  note t = collect_targets_sorted_distinct
    [of test_os "[''/pics'', ''/pics/old/a.jpg'', '''', ''/pics/notes.txt'']", unfolded collect_test_os]
  have m: "''/pics/b.PNG'' \<in> set [''/pics/b.PNG'', ''/pics/old/a.jpg'', ''/pics/old/anim.gif'']"
    by simp
  from t have a: "sorted [''/pics/b.PNG'', ''/pics/old/a.jpg'', ''/pics/old/anim.gif'']"
    and b: "distinct [''/pics/b.PNG'', ''/pics/old/a.jpg'', ''/pics/old/anim.gif'']"
    and c: "\<forall>p \<in> set [''/pics/b.PNG'', ''/pics/old/a.jpg'', ''/pics/old/anim.gif'']. is_image_file p"
    by blast+
  from c m have "is_image_file ''/pics/b.PNG''" by blast
  with a b m collect_test_os show ?thesis by blast
qed

section \<open>The batch driver and its report\<close>

lemma save_to_finite: "finite fs \<Longrightarrow> finite (snd (save_to lib im dst fs))"
  by (simp add: save_to_def Let_def split: save_outcome.splits)

lemma save_to_finite_ex: "finite fs \<Longrightarrow> \<exists>a b. save_to lib im dst fs = (a, b) \<and> finite b"
  using save_to_finite [of fs lib im dst] by (cases "save_to lib im dst fs") simp

lemma convert_one_total:
  assumes "finite fs"
  shows "\<exists>res. convert_one lib out_dir fs src cfg = Some res \<and> finite (snd res)"
proof -
  obtain dst where d: "safe_out_path fs out_dir (basename src) ''_adj'' = Some dst"
    using safe_out_path_total [OF assms] by blast
  show ?thesis
    unfolding convert_one_def using assms
    by (auto simp: d save_to_finite_ex split: sum.splits)
qed

lemma convert_to_gray_total:
  assumes "finite fs"
  shows "\<exists>res. convert_to_gray lib out_dir fs src = Some res \<and> finite (snd res)"
proof -
  obtain dst where d: "safe_out_path fs out_dir (basename src) ''_gray'' = Some dst"
    using safe_out_path_total [OF assms] by blast
  show ?thesis
    unfolding convert_to_gray_def using assms
    by (auto simp: d save_to_finite_ex split: sum.splits)
qed

text \<open>
  When every line can be printed, the loop is the specification's batch: it converts the
  targets in order, each once, and prints each result as the line of its kind.
\<close>

lemma run_results_total:
  assumes conv: "\<And>fs p. finite fs \<Longrightarrow> \<exists>res. conv fs p = Some res \<and> finite (snd res)"
    and fin: "finite fs"
  shows "\<exists>rs fs'. run_results conv fs ps = Some (rs, fs') \<and> length rs = length ps \<and> finite fs'"
  using fin
proof (induction ps arbitrary: fs)
  case Nil
  then show ?case by simp
next
  case (Cons p ps)
  obtain r fs1 where c: "conv fs p = Some (r, fs1)" and f: "finite fs1"
    using conv [OF Cons.prems, of p] by auto
  from Cons.IH [OF f] obtain rs fs2 where
    "run_results conv fs1 ps = Some (rs, fs2)" "length rs = length ps" "finite fs2" by blast
  then show ?case by (simp add: c)
qed

lemma batch_loop_printing:
  assumes pr: "\<And>l. pr l = None"
  shows "batch_loop pr conv n i ps st =
     (case run_results conv (files st) ps of
        None \<Rightarrow> None
      | Some (rs, fs') \<Rightarrow>
          Some (None, st\<lparr>ok_count := ok_count st + length (filter (\<lambda>r. \<not> isl r) rs),
                          skip_count := skip_count st + length (filter isl rs),
                          printed := printed st @
                            map (result_line n) (zip [i..<i + length ps] (zip ps rs)),
                          files := fs'\<rparr>))"
proof (induction ps arbitrary: i st)
  case Nil
  then show ?case by simp
next
  case (Cons p ps)
  have z: "[i..<i + length (p # ps)] = i # [i + 1..<(i + 1) + length ps]"
    by (simp add: upt_rec)
  show ?case
  proof (cases "conv (files st) p")
    case None
    then show ?thesis by simp
  next
    case (Some res)
    obtain r fs1 where res: "res = (r, fs1)" by (cases res)
    show ?thesis
    proof (cases r)
      case (Inl why)
      let ?st2 = "st\<lparr>skip_count := skip_count st + 1, files := fs1,
                     printed := printed st @ [LogSkip i n (basename p) why]\<rparr>"
      have step: "batch_loop pr conv n i (p # ps) st = batch_loop pr conv n (i + 1) ps ?st2"
        by (simp add: Some res Inl print_line_def pr Let_def)
      show ?thesis
        unfolding step Cons.IH z
        by (simp add: Some res Inl result_line_def split: option.splits)
    next
      case (Inr dst)
      let ?st2 = "st\<lparr>ok_count := ok_count st + 1, files := fs1,
                     printed := printed st @ [LogOk i n (basename p) (basename dst)]\<rparr>"
      have step: "batch_loop pr conv n i (p # ps) st = batch_loop pr conv n (i + 1) ps ?st2"
        by (simp add: Some res Inr print_line_def pr Let_def)
      show ?thesis
        unfolding step Cons.IH z
        by (simp add: Some res Inr result_line_def split: option.splits)
    qed
  qed
qed

lemma batch_report:
  assumes pr: "\<And>l. pr l = None"
    and rr: "run_results conv fs targets = Some (rs, fs')"
  shows "batch_end pr out_dir (length targets)
           (batch_loop pr conv (length targets) 1 targets (batch_start fs)) =
         Some (Returned 0, report out_dir targets rs fs')"
  by (simp add: batch_loop_printing [of pr, OF pr] batch_start_def rr batch_end_def
      batch_finish_def print_line_def pr report_def Let_def)

lemma count_results: "length (filter (\<lambda>r. \<not> isl r) rs) + length (filter isl rs) = length rs"
  by (induction rs) auto

lemma process_targets_report:
  assumes fin: "finite fs" and pr: "\<And>l. pr l = None"
  shows "\<exists>rs fs'. run_results (\<lambda>fs' p. convert_one lib out_dir fs' p cfg) fs targets = Some (rs, fs') \<and>
           length rs = length targets \<and>
           process_targets lib pr out_dir fs targets cfg =
             Some (Returned 0, report out_dir targets rs fs') \<and>
           ok_count (report out_dir targets rs fs') + skip_count (report out_dir targets rs fs')
             = length targets"
proof -
  from run_results_total [of "\<lambda>fs' p. convert_one lib out_dir fs' p cfg" fs targets]
    convert_one_total [of _ lib out_dir _ cfg] fin
  obtain rs fs' where rr: "run_results (\<lambda>fs' p. convert_one lib out_dir fs' p cfg) fs targets = Some (rs, fs')"
    and len: "length rs = length targets" by blast
  have "process_targets lib pr out_dir fs targets cfg = Some (Returned 0, report out_dir targets rs fs')"
    unfolding process_targets_def using pr rr by (rule batch_report)
  moreover have "ok_count (report out_dir targets rs fs') + skip_count (report out_dir targets rs fs')
      = length targets"
    using count_results [of rs] len by (simp add: report_def Let_def)
  ultimately show ?thesis using rr len by blast
qed

lemma process_targets_gray_report:
  assumes fin: "finite fs" and pr: "\<And>l. pr l = None"
  shows "\<exists>rs fs'. run_results (\<lambda>fs' p. convert_to_gray lib out_dir fs' p) fs targets = Some (rs, fs') \<and>
           length rs = length targets \<and>
           process_targets_gray lib pr out_dir fs targets =
             Some (Returned 0, report out_dir targets rs fs') \<and>
           ok_count (report out_dir targets rs fs') + skip_count (report out_dir targets rs fs')
             = length targets"
proof -
  from run_results_total [of "\<lambda>fs' p. convert_to_gray lib out_dir fs' p" fs targets]
    convert_to_gray_total [of _ lib out_dir] fin
  obtain rs fs' where rr: "run_results (\<lambda>fs' p. convert_to_gray lib out_dir fs' p) fs targets = Some (rs, fs')"
    and len: "length rs = length targets" by blast
  have "process_targets_gray lib pr out_dir fs targets = Some (Returned 0, report out_dir targets rs fs')"
    unfolding process_targets_gray_def using pr rr by (rule batch_report)
  moreover have "ok_count (report out_dir targets rs fs') + skip_count (report out_dir targets rs fs')
      = length targets"
    using count_results [of rs] len by (simp add: report_def Let_def)
  ultimately show ?thesis using rr len by blast
qed

text \<open>
  Every way in which \<^verbatim>\<open>convert_one\<close> fails gives a reason: an exception of any library
  call goes through one of the two handlers.
\<close>

lemma convert_one_failures:
  "(img_open lib fs src = Inl e \<longrightarrow>
      convert_one lib out_dir fs src cfg = Some (Inl (handle_exn e), fs)) \<and>
   (img_open lib fs src = Inr im \<and> get_default (is_animated lib im) False \<longrightarrow>
      convert_one lib out_dir fs src cfg = Some (Inl AnimatedSkip, fs)) \<and>
   (img_open lib fs src = Inr im \<and> \<not> get_default (is_animated lib im) False \<and>
    bind_result (if mode lib im \<notin> {''L'', ''LA''} then convert_rgb lib im else Inr im)
      (\<lambda>im'. bind_result (grayscale lib im') (\<lambda>gray. apply_adjustments lib gray cfg)) = Inl e \<longrightarrow>
      convert_one lib out_dir fs src cfg = Some (Inl (handle_exn e), fs)) \<and>
   (img_save lib out dst (lower (snd (splitext dst)) \<in> {''.jpg'', ''.jpeg''}) fs = SaveFailed e left \<longrightarrow>
      fst (save_to lib out dst fs) = Inl (handle_exn e)) \<and>
   (img_save lib out dst (lower (snd (splitext dst)) \<in> {''.jpg'', ''.jpeg''}) fs = Saved \<longrightarrow>
      save_to lib out dst fs = (Inr dst, insert dst fs)) \<and>
   handle_exn UnidentifiedImageError = BadImage \<and>
   (e \<noteq> UnidentifiedImageError \<longrightarrow> handle_exn e = Failed e)"
  by (cases e) (simp_all add: convert_one_def save_to_def handle_exn_def Let_def)

text \<open>
  Claim C6 is right and the command-line loop breaks it. On a standard output whose encoding
  takes ASCII only, the batch over an animated image and an ordinary one is left by the
  \<^verbatim>\<open>UnicodeEncodeError\<close> of the first SKIP line: the skip has been counted, nothing has
  been printed, the second target is never converted and no counts are reported. The same
  batch on a standard output that takes every line returns 0 after one SKIP and one OK
  line. Even a batch without a failure is left by the exception, at the line that names
  the output directory.
\<close>

theorem print_failure_aborts_batch:
  "process_targets test_pil print_ascii ''/out'' test_fs
     [''/pics/old/anim.gif'', ''/pics/b.PNG''] default_cfg =
     Some (Raised (OtherError ''UnicodeEncodeError''),
           \<lparr>ok_count = 0, skip_count = 1, printed = [], files = test_fs\<rparr>) \<and>
   process_targets_gray test_pil print_ascii ''/out'' test_fs
     [''/pics/old/anim.gif'', ''/pics/b.PNG''] =
     Some (Raised (OtherError ''UnicodeEncodeError''),
           \<lparr>ok_count = 0, skip_count = 1, printed = [], files = test_fs\<rparr>) \<and>
   process_targets test_pil print_all ''/out'' test_fs
     [''/pics/old/anim.gif'', ''/pics/b.PNG''] default_cfg =
     Some (Returned 0,
           \<lparr>ok_count = 1, skip_count = 1,
            printed = [LogSkip 1 2 ''anim.gif'' AnimatedSkip, LogOk 2 2 ''b.PNG'' ''b_adj.PNG'',
                       LogRule, LogOutDir ''/out'', LogDone 1 1 2],
            files = insert ''/out/b_adj.PNG'' test_fs\<rparr>) \<and>
   process_targets test_pil print_ascii ''/out'' test_fs [''/pics/b.PNG''] default_cfg =
     Some (Raised (OtherError ''UnicodeEncodeError''),
           \<lparr>ok_count = 1, skip_count = 0, printed = [LogOk 1 1 ''b.PNG'' ''b_adj.PNG'', LogRule],
            files = insert ''/out/b_adj.PNG'' test_fs\<rparr>)"
  by code_simp

section \<open>Claims about the entry points\<close>

lemma collect_pics:
  "collect_targets test_os [''/pics''] = [''/pics/b.PNG'', ''/pics/old/a.jpg'', ''/pics/old/anim.gif'']"
  by code_simp

lemma collect_notes: "collect_targets test_os [''/pics/notes.txt''] = []"
  by code_simp

text \<open>
  Claim C8, as stated, fails on the preview tool: its \<^verbatim>\<open>main\<close> never looks at its
  arguments. Called with a directory from which three targets are collected, it opens the
  window and runs no batch. (And \<^verbatim>\<open>run_cli\<close> opens the window when arguments are given but
  none of them yields a target.)
\<close>

theorem preview_tool_ignores_arguments:
  "collect_targets test_os [''/pics''] = [''/pics/b.PNG'', ''/pics/old/a.jpg'', ''/pics/old/anim.gif''] \<and>
   main_preview test_pil test_os ''/out'' test_fs [''/pics''] = GuiLaunched \<and>
   main_preview test_pil test_os ''/out'' test_fs [''/pics''] \<noteq>
     BatchRan (process_targets test_pil print_all ''/out'' test_fs (collect_targets test_os [''/pics'']) default_cfg) \<and>
   run_cli test_pil test_os print_all ''/out'' test_fs [''/pics/notes.txt''] = GuiLaunched"
  by (simp add: collect_pics collect_notes main_preview_def run_cli_def)

text \<open>
  Claim C8, amended. The two command-line tools collect the targets of their arguments
  and run the batch over them when there is at least one, and open the window when there is
  none, in particular without arguments. The preview tool has no batch path: it opens the
  window whatever its arguments.
\<close>

theorem entry_points_dispatch:
  "run_cli lib env pr out_dir fs argv =
     (if collect_targets env argv = [] then GuiLaunched
      else BatchRan (process_targets lib pr out_dir fs (collect_targets env argv) default_cfg)) \<and>
   run_cli_gray lib env pr out_dir fs argv =
     (if collect_targets env argv = [] then GuiLaunched
      else BatchRan (process_targets_gray lib pr out_dir fs (collect_targets env argv))) \<and>
   run_cli lib env pr out_dir fs [] = GuiLaunched \<and>
   run_cli_gray lib env pr out_dir fs [] = GuiLaunched \<and>
   main_preview lib env out_dir fs argv = GuiLaunched"
  by (simp add: run_cli_def run_cli_gray_def main_preview_def Let_def collect_targets_def)

text \<open>A directory argument, an argument that is not an image, and the preview tool.\<close>

theorem entry_points_dispatch_witness:
  "run_cli test_pil test_os print_all ''/out'' test_fs [''/pics''] =
     BatchRan (process_targets test_pil print_all ''/out'' test_fs
       [''/pics/b.PNG'', ''/pics/old/a.jpg'', ''/pics/old/anim.gif''] default_cfg) \<and>
   run_cli_gray test_pil test_os print_all ''/out'' test_fs [''/pics/notes.txt''] = GuiLaunched \<and>
   main_preview test_pil test_os ''/out'' test_fs [''/pics''] = GuiLaunched"
  using entry_points_dispatch [of test_pil test_os print_all "''/out''" test_fs "[''/pics'']"]
    entry_points_dispatch [of test_pil test_os print_all "''/out''" test_fs "[''/pics/notes.txt'']"]
  by (simp add: collect_pics collect_notes)

end
